theory Spec2Isabelle
  imports Complex_Main
begin

section \<open>Python values, errors and built-ins used by the feature pipeline\<close>

text \<open>
  Exceptions of the source are values: every function that can raise returns
  \<open>py_error + 'a\<close>, with \<open>Inl\<close> carrying the exception. A raised exception
  discards all partial results of the enclosing function, as in Python.
\<close>

datatype py_error =
    IndexError
  | KeyError string
  | AssertionError
  | TypeError string
  | ValueError string
  | OSError string

text \<open>
  The encoder handed to the feature builder (\<open>model.encode_word\<close>) is duck-typed:
  the recurrent strategy calls it on the whole list of words, the transformer strategy
  on one stripped word. Its argument is therefore a tagged Python value.
\<close>

datatype py_arg = PyStr string | PyList "string list"

type_synonym encoder = "py_arg \<Rightarrow> int list"

text \<open>\<open>s.split(sep)\<close> for a one-character separator: the empty string gives \<open>['']\<close>.\<close>

fun py_split :: "char \<Rightarrow> string \<Rightarrow> string list" where
  "py_split sep [] = [[]]"
| "py_split sep (c # cs) =
     (if c = sep then [] # py_split sep cs
      else (case py_split sep cs of
              [] \<Rightarrow> [[c]]
            | w # ws \<Rightarrow> (c # w) # ws))"

text \<open>
  \<open>s.strip()\<close>: characters are read as code points below 256; the white-space
  code points there are 9--13, 28--32, 133 and 160.
\<close>

definition is_space :: "char \<Rightarrow> bool" where
  "is_space c \<longleftrightarrow> (of_char c :: nat) \<in> {9, 10, 11, 12, 13, 28, 29, 30, 31, 32, 133, 160}"

definition py_strip :: "string \<Rightarrow> string" where
  "py_strip s = rev (dropWhile is_space (rev (dropWhile is_space s)))"

text \<open>\<open>xs[0:k]\<close> for an integer \<open>k\<close>: a negative \<open>k\<close> counts from the end.\<close>

definition py_slice0 :: "'a list \<Rightarrow> int \<Rightarrow> 'a list" where
  "py_slice0 xs k =
     (if k < 0 then take (nat (int (length xs) + k)) xs else take (nat k) xs)"

text \<open>\<open>[v] * n\<close>: empty for \<open>n \<le> 0\<close>.\<close>

definition py_repeat :: "'a \<Rightarrow> int \<Rightarrow> 'a list" where
  "py_repeat v n = replicate (nat n) v"

text \<open>\<open>enumerate(xs, start)\<close>.\<close>

fun py_enumerate :: "int \<Rightarrow> 'a list \<Rightarrow> (int \<times> 'a) list" where
  "py_enumerate start [] = []"
| "py_enumerate start (x # xs) = (start, x) # py_enumerate (start + 1) xs"

text \<open>\<open>d[k]\<close> on a dictionary.\<close>

definition dict_get :: "(string \<rightharpoonup> int) \<Rightarrow> string \<Rightarrow> py_error + int" where
  "dict_get d k = (case d k of None \<Rightarrow> Inl (KeyError k) | Some v \<Rightarrow> Inr v)"

section \<open>Data model (src/utils/data\_utils.py)\<close>

record InputExample =
  guid :: string
  text_a :: string
  text_b :: "string option"
  label :: "string list"

record InputFeatures =
  input_ids :: "int list"
  input_mask :: "int list"
  label_id :: "int list"
  valid_ids :: "int list"
  label_mask :: "int list"

definition ignored_label :: string where
  "ignored_label = ''IGNORE''"

text \<open>
  \<open>label_map = {label: i for i, label in enumerate(label_list, 1)}\<close> followed by
  \<open>label_map[ignored_label] = 0\<close>: later entries overwrite earlier ones.
\<close>

definition label_map_of :: "string list \<Rightarrow> (string \<rightharpoonup> int)" where
  "label_map_of label_list =
     (fold (\<lambda>(i, l) m. m(l \<mapsto> i)) (py_enumerate 1 label_list) Map.empty)
       (ignored_label \<mapsto> 0)"

section \<open>Feature builder, recurrent-model strategy\<close>

text \<open>
  The loop \<open>for i in range(0, max_seq_length)\<close> of
  \<open>convert_examples_to_features_LSTM\<close>, over the index list of the range, with the
  two lists it appends to.
\<close>

fun lstm_label_loop ::
  "(string \<rightharpoonup> int) \<Rightarrow> string list \<Rightarrow> nat list \<Rightarrow> int list \<Rightarrow> int list
     \<Rightarrow> py_error + (int list \<times> int list)" where
  "lstm_label_loop lm labellist [] label_ids lmask = Inr (label_ids, lmask)"
| "lstm_label_loop lm labellist (i # rest) label_ids lmask =
     (if i \<ge> length labellist then
        (case dict_get lm ignored_label of
           Inl e \<Rightarrow> Inl e
         | Inr v \<Rightarrow> lstm_label_loop lm labellist rest (label_ids @ [v]) (lmask @ [0]))
      else
        (case dict_get lm (labellist ! i) of
           Inl e \<Rightarrow> Inl e
         | Inr v \<Rightarrow> lstm_label_loop lm labellist rest (label_ids @ [v]) (lmask @ [1])))"

text \<open>The body of the loop over examples (lines 76--101).\<close>

definition lstm_example ::
  "(string \<rightharpoonup> int) \<Rightarrow> int \<Rightarrow> encoder \<Rightarrow> InputExample \<Rightarrow> py_error + InputFeatures" where
  "lstm_example lm max_seq_length encode_method example =
     (let textlist = py_split CHR '' '' (text_a example);
          labellist = label example;
          encoded = encode_method (PyList textlist);
          token_ids =
            (if int (length encoded) > max_seq_length then py_slice0 encoded max_seq_length
             else if int (length encoded) < max_seq_length
               then encoded @ py_repeat 0 (max_seq_length - int (length encoded))
             else encoded);
          valid0 = py_repeat 1 (int (length token_ids))
      in case lstm_label_loop lm labellist [0 ..< nat max_seq_length] [] [] of
           Inl e \<Rightarrow> Inl e
         | Inr (label_ids, lmask) \<Rightarrow>
             Inr \<lparr> input_ids = token_ids,
                   input_mask = py_repeat 1 (int (length token_ids)),
                   label_id = label_ids,
                   valid_ids = valid0 @ py_repeat 0 (max_seq_length - int (length token_ids)),
                   label_mask = lmask \<rparr>)"

fun lstm_examples_loop ::
  "(string \<rightharpoonup> int) \<Rightarrow> int \<Rightarrow> encoder \<Rightarrow> InputExample list \<Rightarrow> InputFeatures list
     \<Rightarrow> py_error + InputFeatures list" where
  "lstm_examples_loop lm msl enc [] features = Inr features"
| "lstm_examples_loop lm msl enc (example # rest) features =
     (case lstm_example lm msl enc example of
        Inl e \<Rightarrow> Inl e
      | Inr f \<Rightarrow> lstm_examples_loop lm msl enc rest (features @ [f]))"

definition convert_examples_to_features_LSTM ::
  "InputExample list \<Rightarrow> string list \<Rightarrow> int \<Rightarrow> encoder \<Rightarrow> py_error + InputFeatures list" where
  "convert_examples_to_features_LSTM examples label_list max_seq_length encode_method =
     lstm_examples_loop (label_map_of label_list) max_seq_length encode_method examples []"

section \<open>Feature builder, transformer-packing strategy\<close>

text \<open>
  The four lists built per example before packing (\<open>token_ids\<close>, \<open>labels\<close>,
  \<open>valid\<close>, \<open>label_mask\<close>).
\<close>

record pieces =
  ex_token_ids :: "int list"
  ex_labels :: "string list"
  ex_valid :: "int list"
  ex_label_mask :: "int list"

definition no_pieces :: pieces where
  "no_pieces = \<lparr> ex_token_ids = [], ex_labels = [], ex_valid = [], ex_label_mask = [] \<rparr>"

text \<open>One round of \<open>for m in range(len(tokens))\<close> (lines 126--134).\<close>

definition piece_step :: "string \<Rightarrow> nat \<Rightarrow> pieces \<Rightarrow> pieces" where
  "piece_step label_1 m acc =
     (if m = 0 then
        acc\<lparr> ex_labels := ex_labels acc @ [label_1],
             ex_valid := ex_valid acc @ [1],
             ex_label_mask := ex_label_mask acc @ [1] \<rparr>
      else
        acc\<lparr> ex_labels := ex_labels acc @ [ignored_label],
             ex_label_mask := ex_label_mask acc @ [0],
             ex_valid := ex_valid acc @ [0] \<rparr>)"

text \<open>
  \<open>for i, word in enumerate(textlist)\<close> (lines 122--134); \<open>labellist[i]\<close> raises
  IndexError when the label list is shorter than the word list.
\<close>

fun encode_words ::
  "encoder \<Rightarrow> string list \<Rightarrow> (nat \<times> string) list \<Rightarrow> pieces \<Rightarrow> py_error + pieces" where
  "encode_words enc labellist [] acc = Inr acc"
| "encode_words enc labellist ((i, word) # rest) acc =
     (let tokens = enc (PyStr (py_strip word));
          acc1 = acc\<lparr> ex_token_ids := ex_token_ids acc @ tokens \<rparr>
      in if i < length labellist
         then encode_words enc labellist rest
                (fold (piece_step (labellist ! i)) [0 ..< length tokens] acc1)
         else Inl IndexError)"

definition encode_example :: "encoder \<Rightarrow> InputExample \<Rightarrow> py_error + pieces" where
  "encode_example enc example =
     encode_words enc (label example)
       (enumerate 0 (py_split CHR '' '' (text_a example))) no_pieces"

text \<open>Lines 137--141: trim extra tokens.\<close>

definition trim_extra :: "int \<Rightarrow> pieces \<Rightarrow> pieces" where
  "trim_extra max_seq_length p =
     (if int (length (ex_token_ids p)) \<ge> max_seq_length - 1 then
        \<lparr> ex_token_ids = py_slice0 (ex_token_ids p) (max_seq_length - 2),
          ex_labels = py_slice0 (ex_labels p) (max_seq_length - 2),
          ex_valid = py_slice0 (ex_valid p) (max_seq_length - 2),
          ex_label_mask = py_slice0 (ex_label_mask p) (max_seq_length - 2) \<rparr>
      else p)"

text \<open>Lines 143--153: \<open>insert(0, _)\<close> and \<open>append(_)\<close> of the sentence markers.\<close>

definition add_markers :: "pieces \<Rightarrow> pieces" where
  "add_markers p =
     \<lparr> ex_token_ids = 0 # ex_token_ids p @ [2],
       ex_labels = ignored_label # ex_labels p @ [ignored_label],
       ex_valid = 0 # ex_valid p @ [0],
       ex_label_mask = 0 # ex_label_mask p @ [0] \<rparr>"

text \<open>Lines 157--159: \<open>label_ids.append(label_map[labels[i]])\<close> over the indices of \<open>token_ids\<close>.\<close>

fun label_ids_loop ::
  "(string \<rightharpoonup> int) \<Rightarrow> string list \<Rightarrow> nat list \<Rightarrow> int list \<Rightarrow> py_error + int list" where
  "label_ids_loop lm labels [] label_ids = Inr label_ids"
| "label_ids_loop lm labels (i # rest) label_ids =
     (if i < length labels then
        (case dict_get lm (labels ! i) of
           Inl e \<Rightarrow> Inl e
         | Inr v \<Rightarrow> label_ids_loop lm labels rest (label_ids @ [v]))
      else Inl IndexError)"

text \<open>
  The pending buffer: five lists that grow together. The sequence of one example has the
  same shape (it becomes the pending buffer on a flush).
\<close>

record pending =
  pending_token_ids :: "int list"
  pending_input_mask :: "int list"
  pending_label_ids :: "int list"
  pending_valid :: "int list"
  pending_label_mask :: "int list"

definition empty_pending :: pending where
  "empty_pending =
     \<lparr> pending_token_ids = [], pending_input_mask = [], pending_label_ids = [],
       pending_valid = [], pending_label_mask = [] \<rparr>"

text \<open>Lines 115--162: one example up to its five lists, with the four assertions.\<close>

definition example_sequence ::
  "(string \<rightharpoonup> int) \<Rightarrow> int \<Rightarrow> encoder \<Rightarrow> InputExample \<Rightarrow> py_error + pending" where
  "example_sequence lm max_seq_length enc example =
     (case encode_example enc example of
        Inl e \<Rightarrow> Inl e
      | Inr p0 \<Rightarrow>
          (let p = add_markers (trim_extra max_seq_length p0) in
           if length (ex_token_ids p) \<noteq> length (ex_labels p) then Inl AssertionError
           else if length (ex_valid p) \<noteq> length (ex_labels p) then Inl AssertionError
           else
             (case label_ids_loop lm (ex_labels p) [0 ..< length (ex_token_ids p)] [] of
                Inl e \<Rightarrow> Inl e
              | Inr label_ids \<Rightarrow>
                  if length (ex_token_ids p) \<noteq> length label_ids then Inl AssertionError
                  else if length (ex_valid p) \<noteq> length label_ids then Inl AssertionError
                  else Inr \<lparr> pending_token_ids = ex_token_ids p,
                             pending_input_mask = py_repeat 1 (int (length (ex_token_ids p))),
                             pending_label_ids = label_ids,
                             pending_valid = ex_valid p,
                             pending_label_mask = ex_label_mask p \<rparr>)))"

text \<open>
  \<open>append_pending\<close>: the first while loop pads all five lists, the second one the label
  lists only; five assertions follow. The source mutates the pending lists in place and
  hands the same list objects to the record; the caller rebinds its five variables to
  fresh lists right after a call (or returns), so no later mutation reaches a record and
  value semantics is exact.
\<close>

function pad_pending ::
  "string \<Rightarrow> (string \<rightharpoonup> int) \<Rightarrow> int \<Rightarrow> pending \<Rightarrow> py_error + pending" where
  "pad_pending ign lm max_seq_length p =
     (if int (length (pending_token_ids p)) < max_seq_length then
        (case dict_get lm ign of
           Inl e \<Rightarrow> Inl e
         | Inr v \<Rightarrow>
             pad_pending ign lm max_seq_length
               (p\<lparr> pending_token_ids := pending_token_ids p @ [1],
                    pending_input_mask := pending_input_mask p @ [0],
                    pending_label_ids := pending_label_ids p @ [v],
                    pending_valid := pending_valid p @ [0],
                    pending_label_mask := pending_label_mask p @ [0] \<rparr>))
      else Inr p)"
  by pat_completeness auto
termination
  by (relation "measure (\<lambda>(ign, lm, msl, p). nat (msl - int (length (pending_token_ids p))))")
     auto

declare pad_pending.simps [simp del]

function pad_pending_labels ::
  "string \<Rightarrow> (string \<rightharpoonup> int) \<Rightarrow> int \<Rightarrow> pending \<Rightarrow> py_error + pending" where
  "pad_pending_labels ign lm max_seq_length p =
     (if int (length (pending_label_ids p)) < max_seq_length then
        (case dict_get lm ign of
           Inl e \<Rightarrow> Inl e
         | Inr v \<Rightarrow>
             pad_pending_labels ign lm max_seq_length
               (p\<lparr> pending_label_ids := pending_label_ids p @ [v],
                    pending_label_mask := pending_label_mask p @ [0] \<rparr>))
      else Inr p)"
  by pat_completeness auto
termination
  by (relation "measure (\<lambda>(ign, lm, msl, p). nat (msl - int (length (pending_label_ids p))))")
     auto

declare pad_pending_labels.simps [simp del]

definition append_pending ::
  "string \<Rightarrow> pending \<Rightarrow> int \<Rightarrow> (string \<rightharpoonup> int) \<Rightarrow> py_error + InputFeatures" where
  "append_pending ign p max_seq_length lm =
     (case pad_pending ign lm max_seq_length p of
        Inl e \<Rightarrow> Inl e
      | Inr p1 \<Rightarrow>
          (case pad_pending_labels ign lm max_seq_length p1 of
             Inl e \<Rightarrow> Inl e
           | Inr p2 \<Rightarrow>
               if int (length (pending_token_ids p2)) \<noteq> max_seq_length then Inl AssertionError
               else if int (length (pending_input_mask p2)) \<noteq> max_seq_length then Inl AssertionError
               else if int (length (pending_label_ids p2)) \<noteq> max_seq_length then Inl AssertionError
               else if int (length (pending_valid p2)) \<noteq> max_seq_length then Inl AssertionError
               else if int (length (pending_label_mask p2)) \<noteq> max_seq_length then Inl AssertionError
               else Inr \<lparr> input_ids = pending_token_ids p2,
                          input_mask = pending_input_mask p2,
                          label_id = pending_label_ids p2,
                          valid_ids = pending_valid p2,
                          label_mask = pending_label_mask p2 \<rparr>))"

text \<open>The five \<open>extend\<close> calls of the else branch (lines 173--177).\<close>

definition extend_pending :: "pending \<Rightarrow> pending \<Rightarrow> pending" where
  "extend_pending p s =
     \<lparr> pending_token_ids = pending_token_ids p @ pending_token_ids s,
       pending_input_mask = pending_input_mask p @ pending_input_mask s,
       pending_label_ids = pending_label_ids p @ pending_label_ids s,
       pending_valid = pending_valid p @ pending_valid s,
       pending_label_mask = pending_label_mask p @ pending_label_mask s \<rparr>"

text \<open>The state of the loop over examples: the pending buffer and the records emitted.\<close>

record pack_state =
  buffer :: pending
  features :: "InputFeatures list"

text \<open>Lines 163--177: flush and restart, or extend.\<close>

definition pack_step ::
  "(string \<rightharpoonup> int) \<Rightarrow> int \<Rightarrow> pending \<Rightarrow> pack_state \<Rightarrow> py_error + pack_state" where
  "pack_step lm max_seq_length s st =
     (if int (length (pending_token_ids s)) + int (length (pending_token_ids (buffer st)))
           > max_seq_length
      then (case append_pending ignored_label (buffer st) max_seq_length lm of
              Inl e \<Rightarrow> Inl e
            | Inr f \<Rightarrow> Inr \<lparr> buffer = s, features = features st @ [f] \<rparr>)
      else Inr \<lparr> buffer = extend_pending (buffer st) s, features = features st \<rparr>)"

fun transformers_loop ::
  "(string \<rightharpoonup> int) \<Rightarrow> int \<Rightarrow> encoder \<Rightarrow> InputExample list \<Rightarrow> pack_state
     \<Rightarrow> py_error + pack_state" where
  "transformers_loop lm msl enc [] st = Inr st"
| "transformers_loop lm msl enc (example # rest) st =
     (case example_sequence lm msl enc example of
        Inl e \<Rightarrow> Inl e
      | Inr s \<Rightarrow>
          (case pack_step lm msl s st of
             Inl e \<Rightarrow> Inl e
           | Inr st' \<Rightarrow> transformers_loop lm msl enc rest st'))"

definition convert_examples_to_features_Transformers ::
  "InputExample list \<Rightarrow> string list \<Rightarrow> int \<Rightarrow> encoder \<Rightarrow> py_error + InputFeatures list" where
  "convert_examples_to_features_Transformers examples label_list max_seq_length encode_method =
     (let lm = label_map_of label_list in
      case transformers_loop lm max_seq_length encode_method examples
             \<lparr> buffer = empty_pending, features = [] \<rparr> of
        Inl e \<Rightarrow> Inl e
      | Inr st \<Rightarrow>
          (case append_pending ignored_label (buffer st) max_seq_length lm of
             Inl e \<Rightarrow> Inl e
           | Inr f \<Rightarrow> Inr (features st @ [f])))"

definition convert_examples_to_features ::
  "InputExample list \<Rightarrow> string list \<Rightarrow> int \<Rightarrow> encoder \<Rightarrow> string
     \<Rightarrow> py_error + InputFeatures list" where
  "convert_examples_to_features examples label_list max_seq_length encode_method model_name =
     (if model_name = ''LSTM''
      then convert_examples_to_features_LSTM examples label_list max_seq_length encode_method
      else convert_examples_to_features_Transformers examples label_list max_seq_length
             encode_method)"

section \<open>Corpus loader\<close>

text \<open>
  The file system is a parameter of the loader: \<open>listdir\<close> gives the entries of a
  directory in the order \<open>os.listdir\<close> returns them, \<open>read_json\<close> the tokens and
  labels parsed from the file at a path (or the exception raised while reading it).
\<close>

type_synonym document = "string list \<times> string list"

text \<open>\<open>x.split('.')[1] == 'json'\<close>: a name without a dot raises IndexError.\<close>

definition is_json :: "string \<Rightarrow> py_error + bool" where
  "is_json x =
     (let parts = py_split CHR ''.'' x in
      if 1 < length parts then Inr (parts ! 1 = ''json'') else Inl IndexError)"

fun filter_json :: "string list \<Rightarrow> py_error + string list" where
  "filter_json [] = Inr []"
| "filter_json (x # xs) =
     (case is_json x of
        Inl e \<Rightarrow> Inl e
      | Inr b \<Rightarrow>
          (case filter_json xs of
             Inl e \<Rightarrow> Inl e
           | Inr ys \<Rightarrow> Inr (if b then x # ys else ys)))"

text \<open>The loop \<open>for f in files\<close> with its \<open>break\<close> (lines 38--44).\<close>

fun load_loop ::
  "(string \<Rightarrow> py_error + document) \<Rightarrow> string \<Rightarrow> string list
     \<Rightarrow> string list list \<Rightarrow> string list list
     \<Rightarrow> py_error + (string list list \<times> string list list)" where
  "load_loop read_json path [] x_train y_train = Inr (x_train, y_train)"
| "load_loop read_json path (f # rest) x_train y_train =
     (case read_json (path @ ''/'' @ f) of
        Inl e \<Rightarrow> Inl e
      | Inr (tokens, labels) \<Rightarrow>
          (let x_train' = x_train @ [tokens];
               y_train' = y_train @ [labels]
           in if length x_train' > 100 then Inr (x_train', y_train')
              else load_loop read_json path rest x_train' y_train'))"

definition load_from_folder ::
  "(string \<Rightarrow> py_error + string list) \<Rightarrow> (string \<Rightarrow> py_error + document) \<Rightarrow> string
     \<Rightarrow> py_error + (string list list \<times> string list list)" where
  "load_from_folder listdir read_json path =
     (case listdir path of
        Inl e \<Rightarrow> Inl e
      | Inr files \<Rightarrow>
          (case filter_json files of
             Inl e \<Rightarrow> Inl e
           | Inr json_files \<Rightarrow> load_loop read_json path json_files [] []))"

section \<open>Trainer (src/models/Transformers.py)\<close>

subsection \<open>The \<open>%\<close> operator on strings\<close>

datatype py_val = VInt int | VStr string

function show_nat :: "nat \<Rightarrow> string" where
  "show_nat n =
     (if n < 10 then [char_of (48 + n)]
      else show_nat (n div 10) @ [char_of (48 + n mod 10)])"
  by pat_completeness auto
termination
  by (relation "measure id") auto

declare show_nat.simps [simp del]

definition show_int :: "int \<Rightarrow> string" where
  "show_int i = (if i < 0 then CHR ''-'' # show_nat (nat (- i)) else show_nat (nat i))"

text \<open>Rendering one value under \<open>%s\<close> or \<open>%d\<close>.\<close>

definition render :: "char \<Rightarrow> py_val \<Rightarrow> py_error + string" where
  "render conv v =
     (case v of
        VInt i \<Rightarrow> Inr (show_int i)
      | VStr t \<Rightarrow>
          if conv = CHR ''s'' then Inr t
          else Inl (TypeError ''%d format: a real number is required, not str''))"

text \<open>
  \<open>fmt % args\<close> for the conversions the source uses (\<open>%s\<close>, \<open>%d\<close>) and \<open>%%\<close>:
  every conversion consumes one argument, and arguments left over at the end of the
  format raise TypeError. A single value that is not a tuple is the one-element
  argument list.
\<close>

fun percent_format :: "string \<Rightarrow> py_val list \<Rightarrow> py_error + string" where
  "percent_format [] args =
     (if args = [] then Inr []
      else Inl (TypeError ''not all arguments converted during string formatting''))"
| "percent_format [c] args =
     (if c = CHR ''%'' then Inl (ValueError ''incomplete format'')
      else (case percent_format [] args of Inl e \<Rightarrow> Inl e | Inr r \<Rightarrow> Inr (c # r)))"
| "percent_format (c # d # cs) args =
     (if c \<noteq> CHR ''%'' then
        (case percent_format (d # cs) args of Inl e \<Rightarrow> Inl e | Inr r \<Rightarrow> Inr (c # r))
      else if d = CHR ''%'' then
        (case percent_format cs args of Inl e \<Rightarrow> Inl e | Inr r \<Rightarrow> Inr (CHR ''%'' # r))
      else if d = CHR ''s'' \<or> d = CHR ''d'' then
        (case args of
           [] \<Rightarrow> Inl (TypeError ''not enough arguments for format string'')
         | a # rest \<Rightarrow>
             (case render d a of
                Inl e \<Rightarrow> Inl e
              | Inr t \<Rightarrow>
                  (case percent_format cs rest of
                     Inl e \<Rightarrow> Inl e
                   | Inr r \<Rightarrow> Inr (t @ r))))
      else Inl (ValueError ''unsupported format character''))"

subsection \<open>The output directory\<close>

datatype node = File | Dir "string list"

type_synonym filesystem = "string \<rightharpoonup> node"

definition path_exists :: "filesystem \<Rightarrow> string \<Rightarrow> bool" where
  "path_exists fs p \<longleftrightarrow> fs p \<noteq> None"

definition os_listdir :: "filesystem \<Rightarrow> string \<Rightarrow> py_error + string list" where
  "os_listdir fs p =
     (case fs p of
        None \<Rightarrow> Inl (OSError ''FileNotFoundError'')
      | Some File \<Rightarrow> Inl (OSError ''NotADirectoryError'')
      | Some (Dir entries) \<Rightarrow> Inr entries)"

definition os_makedirs :: "filesystem \<Rightarrow> string \<Rightarrow> filesystem" where
  "os_makedirs fs p = fs(p \<mapsto> Dir [])"

definition path_join :: "string \<Rightarrow> string \<Rightarrow> string" where
  "path_join a b =
     (if a = [] then b else if last a = CHR ''/'' then a @ b else a @ ''/'' @ b)"

text \<open>The log file that \<open>logging.basicConfig(filename=...)\<close> opens in the output directory.\<close>

definition open_log :: "filesystem \<Rightarrow> string \<Rightarrow> string \<Rightarrow> filesystem" where
  "open_log fs dir name =
     (case fs dir of
        Some (Dir entries) \<Rightarrow>
          (fs(dir \<mapsto> Dir (if name \<in> set entries then entries else entries @ [name])))
            (path_join dir name \<mapsto> File)
      | _ \<Rightarrow> fs)"

subsection \<open>\<open>Transformers.train\<close>: the checks before any work\<close>

text \<open>
  Lines 23--40. Everything from line 42 on (seeding, loading examples, building the
  model, featurisation, the epochs) is the continuation \<open>work\<close>, which receives the
  file system and the per-step batch size \<open>train_batch_size // gradient_accumulation_steps\<close>.
\<close>

definition train ::
  "filesystem \<Rightarrow> string \<Rightarrow> int \<Rightarrow> int \<Rightarrow> (filesystem \<Rightarrow> int \<Rightarrow> py_error + 'r)
     \<Rightarrow> py_error + 'r" where
  "train fs output_dir train_batch_size gradient_accumulation_steps work =
     (case (if path_exists fs output_dir then os_listdir fs output_dir else Inr []) of
        Inl e \<Rightarrow> Inl e
      | Inr entries \<Rightarrow>
          if path_exists fs output_dir \<and> entries \<noteq> [] then
            (case percent_format ''Output directory (%s) already exists and is not empty.''
                    [VStr output_dir] of
               Inl e \<Rightarrow> Inl e
             | Inr msg \<Rightarrow> Inl (ValueError msg))
          else
            (let fs1 = (if \<not> path_exists fs output_dir then os_makedirs fs output_dir else fs);
                 fs2 = open_log fs1 output_dir ''log.txt''
             in if gradient_accumulation_steps < 1 then
                  (case percent_format
                          ''Invalid gradient_accumulation_steps parameter: {}, should be >= 1''
                          [VInt gradient_accumulation_steps] of
                     Inl e \<Rightarrow> Inl e
                   | Inr msg \<Rightarrow> Inl (ValueError msg))
                else work fs2 (train_batch_size div gradient_accumulation_steps)))"

subsection \<open>The epoch loop: checkpoint on improvement\<close>

text \<open>
  Lines 107--151, reduced to what decides a checkpoint write. \<open>evaluate epoch_no\<close> is
  the F1 that \<open>evaluate_model\<close> returns after the training pass of that epoch; a finite
  float is read as the real number it denotes, on which \<open>>\<close> agrees with the float
  comparison. \<open>SaveBest\<close> is the write of \<open>model.pt\<close> and \<open>params.json\<close> into the
  output directory, \<open>SaveEpoch\<close> the per-epoch snapshot into its subdirectory.
\<close>

datatype save_event = SaveBest nat | SaveEpoch nat

record trainer_state =
  best_val_f1 :: real
  saved :: "save_event list"

definition epoch_step :: "bool \<Rightarrow> (nat \<Rightarrow> real) \<Rightarrow> nat \<Rightarrow> trainer_state \<Rightarrow> trainer_state" where
  "epoch_step epoch_save_model evaluate epoch_no st =
     (let f1 = evaluate epoch_no;
          st1 = (if f1 > best_val_f1 st
                 then st\<lparr> best_val_f1 := f1, saved := saved st @ [SaveBest epoch_no] \<rparr>
                 else st)
      in if epoch_save_model then st1\<lparr> saved := saved st1 @ [SaveEpoch epoch_no] \<rparr> else st1)"

text \<open>\<open>best_val_f1 = 0.0\<close>, then \<open>for epoch_no in range(1, epochs+1)\<close>.\<close>

definition train_epochs :: "bool \<Rightarrow> (nat \<Rightarrow> real) \<Rightarrow> int \<Rightarrow> trainer_state" where
  "train_epochs epoch_save_model evaluate epochs =
     fold (epoch_step epoch_save_model evaluate) [1 ..< nat (epochs + 1)]
       \<lparr> best_val_f1 = 0, saved = [] \<rparr>"

section \<open>Notions used to state the properties\<close>

text \<open>The five lists of a pending buffer have one length.\<close>

definition aligned :: "pending \<Rightarrow> bool" where
  "aligned p \<longleftrightarrow>
     length (pending_input_mask p) = length (pending_token_ids p) \<and>
     length (pending_label_ids p) = length (pending_token_ids p) \<and>
     length (pending_valid p) = length (pending_token_ids p) \<and>
     length (pending_label_mask p) = length (pending_token_ids p)"

text \<open>
  The padded Feature Record of the specification: the buffer followed by padding up to
  \<open>max_seq_length\<close>, with pad token id 1, the three masks 0 and the IGNORE label id 0.
\<close>

definition spec_padded_record :: "int \<Rightarrow> pending \<Rightarrow> InputFeatures" where
  "spec_padded_record max_seq_length p =
     (let n = nat (max_seq_length - int (length (pending_token_ids p))) in
      \<lparr> input_ids = pending_token_ids p @ replicate n 1,
        input_mask = pending_input_mask p @ replicate n 0,
        label_id = pending_label_ids p @ replicate n 0,
        valid_ids = pending_valid p @ replicate n 0,
        label_mask = pending_label_mask p @ replicate n 0 \<rparr>)"

text \<open>All five arrays of a record have length \<open>max_seq_length\<close>.\<close>

definition all_lengths :: "int \<Rightarrow> InputFeatures \<Rightarrow> bool" where
  "all_lengths max_seq_length f \<longleftrightarrow>
     int (length (input_ids f)) = max_seq_length \<and>
     int (length (input_mask f)) = max_seq_length \<and>
     int (length (label_id f)) = max_seq_length \<and>
     int (length (valid_ids f)) = max_seq_length \<and>
     int (length (label_mask f)) = max_seq_length"

text \<open>The best F1 seen before epoch \<open>e\<close>, starting from 0.0.\<close>

definition best_so_far :: "(nat \<Rightarrow> real) \<Rightarrow> nat \<Rightarrow> real" where
  "best_so_far evaluate e = Max (insert 0 (evaluate ` {1 ..< e}))"

text \<open>The number of sub-word pieces of a word, and the labels and flags of its pieces.\<close>

definition n_pieces :: "encoder \<Rightarrow> string \<Rightarrow> nat" where
  "n_pieces enc word = length (enc (PyStr (py_strip word)))"

definition word_labels :: "string \<Rightarrow> nat \<Rightarrow> string list" where
  "word_labels l k = (case k of 0 \<Rightarrow> [] | Suc j \<Rightarrow> l # replicate j ignored_label)"

definition word_flags :: "nat \<Rightarrow> int list" where
  "word_flags k = (case k of 0 \<Rightarrow> [] | Suc j \<Rightarrow> 1 # replicate j 0)"

text \<open>The four per-example lists have one length.\<close>

definition pieces_aligned :: "pieces \<Rightarrow> bool" where
  "pieces_aligned q \<longleftrightarrow>
     length (ex_labels q) = length (ex_token_ids q) \<and>
     length (ex_valid q) = length (ex_token_ids q) \<and>
     length (ex_label_mask q) = length (ex_token_ids q)"

text \<open>
  Truncation as the specification words it: a list of an example whose encoded length
  \<open>n\<close> reaches \<open>max_seq_length - 1\<close> is cut to \<open>max_seq_length - 2\<close> elements.
\<close>

definition spec_trim :: "int \<Rightarrow> nat \<Rightarrow> 'a list \<Rightarrow> 'a list" where
  "spec_trim max_seq_length n xs =
     (if max_seq_length - 1 \<le> int n then take (nat (max_seq_length - 2)) xs else xs)"

text \<open>
  Packing as the specification words it, on the sequences of the examples: a sequence
  that would make the pending buffer exceed \<open>max_seq_length\<close> flushes the buffer and
  starts the next one; any other sequence is appended; the last buffer is flushed at the
  end. The result lists the flushed buffers before padding.
\<close>

fun spec_pack :: "int \<Rightarrow> pending \<Rightarrow> pending list \<Rightarrow> pending list" where
  "spec_pack max_seq_length buf [] = [buf]"
| "spec_pack max_seq_length buf (s # rest) =
     (if int (length (pending_token_ids buf)) + int (length (pending_token_ids s)) > max_seq_length
      then buf # spec_pack max_seq_length s rest
      else spec_pack max_seq_length (extend_pending buf s) rest)"

text \<open>
  A small corpus for concrete runs: an encoder that gives one piece (id 9) per character
  of a word, and two examples.
\<close>

definition demo_encoder :: encoder where
  "demo_encoder a = (case a of PyStr w \<Rightarrow> replicate (length w) 9 | PyList ws \<Rightarrow> [])"

definition demo_example_1 :: InputExample where
  "demo_example_1 =
     \<lparr> guid = ''train-0'', text_a = ''ab c'', text_b = None, label = [''P'', ''O''] \<rparr>"

definition demo_example_2 :: InputExample where
  "demo_example_2 = \<lparr> guid = ''train-1'', text_a = ''d'', text_b = None, label = [''O''] \<rparr>"

text \<open>
  Projection through the validity mask: the entries of a list at the positions where
  the mask is 1, in order; for a record, the label ids at those positions.
\<close>

definition project_valid :: "'a list \<Rightarrow> int list \<Rightarrow> 'a list" where
  "project_valid ls vs = map fst (filter (\<lambda>(l, v). v = 1) (zip ls vs))"

definition labels_at_valid :: "InputFeatures \<Rightarrow> int list" where
  "labels_at_valid f = project_valid (label_id f) (valid_ids f)"

text \<open>The ids of the labels of the words of an example, one per word, in word order.\<close>

definition word_label_ids :: "(string \<rightharpoonup> int) \<Rightarrow> InputExample \<Rightarrow> int option list" where
  "word_label_ids lm example =
     map lm (take (length (py_split CHR '' '' (text_a example))) (label example))"

text \<open>
  The sub-word-encoded length of the example stays below \<open>max_seq_length - 1\<close> (the test
  of line 137 fails), and every word has at least one piece.
\<close>

definition untruncated :: "int \<Rightarrow> encoder \<Rightarrow> InputExample \<Rightarrow> bool" where
  "untruncated max_seq_length enc example \<longleftrightarrow>
     int (length (concat (map (\<lambda>w. enc (PyStr (py_strip w)))
                            (py_split CHR '' '' (text_a example))))) < max_seq_length - 1"

definition every_word_encoded :: "encoder \<Rightarrow> InputExample \<Rightarrow> bool" where
  "every_word_encoded enc example \<longleftrightarrow>
     (\<forall>w\<in>set (py_split CHR '' '' (text_a example)). enc (PyStr (py_strip w)) \<noteq> [])"

section \<open>Properties of the recurrent-model strategy\<close>

lemma label_map_of_ignored: "label_map_of ll ignored_label = Some 0"
  by (simp add: label_map_of_def)

lemma dict_get_ignored: "dict_get (label_map_of ll) ignored_label = Inr 0"
  by (simp add: dict_get_def label_map_of_ignored)

lemma lstm_label_loop_length:
  "lstm_label_loop lm labellist idxs ids lmask = Inr (ids', lmask') \<Longrightarrow>
     length ids' = length ids + length idxs \<and> length lmask' = length lmask + length idxs"
  by (induction idxs arbitrary: ids lmask) (auto split: if_splits sum.splits)

lemma lstm_example_valid_all_ones:
  assumes "lstm_example lm msl enc ex = Inr f" and "0 \<le> msl"
  shows "valid_ids f = replicate (nat msl) 1"
  using assms
  by (auto simp: lstm_example_def Let_def py_repeat_def py_slice0_def
      split: sum.splits if_splits prod.splits simp flip: replicate_add)

section \<open>Properties of \<open>append_pending\<close> and the lengths of the records\<close>

lemma pad_pending_eq:
  assumes "dict_get lm ign = Inr v"
  shows "pad_pending ign lm msl p =
     Inr (p\<lparr> pending_token_ids := pending_token_ids p @ replicate (nat (msl - int (length (pending_token_ids p)))) 1,
             pending_input_mask := pending_input_mask p @ replicate (nat (msl - int (length (pending_token_ids p)))) 0,
             pending_label_ids := pending_label_ids p @ replicate (nat (msl - int (length (pending_token_ids p)))) v,
             pending_valid := pending_valid p @ replicate (nat (msl - int (length (pending_token_ids p)))) 0,
             pending_label_mask := pending_label_mask p @ replicate (nat (msl - int (length (pending_token_ids p)))) 0 \<rparr>)"
  using assms
proof (induction ign lm msl p rule: pad_pending.induct)
  case (1 ign lm msl p)
  show ?case
  proof (cases "int (length (pending_token_ids p)) < msl")
    case True
    then have n: "nat (msl - int (length (pending_token_ids p)))
        = Suc (nat (msl - int (length (pending_token_ids p @ [1]))))"
      by simp
    from True 1 show ?thesis
      by (subst pad_pending.simps) (simp add: n)
  next
    case False
    then show ?thesis
      by (subst pad_pending.simps) simp
  qed
qed

lemma pad_pending_labels_eq:
  assumes "dict_get lm ign = Inr v"
  shows "pad_pending_labels ign lm msl p =
     Inr (p\<lparr> pending_label_ids := pending_label_ids p @ replicate (nat (msl - int (length (pending_label_ids p)))) v,
             pending_label_mask := pending_label_mask p @ replicate (nat (msl - int (length (pending_label_ids p)))) 0 \<rparr>)"
  using assms
proof (induction ign lm msl p rule: pad_pending_labels.induct)
  case (1 ign lm msl p)
  show ?case
  proof (cases "int (length (pending_label_ids p)) < msl")
    case True
    then have n: "nat (msl - int (length (pending_label_ids p)))
        = Suc (nat (msl - int (length (pending_label_ids p @ [v]))))"
      by simp
    from True 1 show ?thesis
      by (subst pad_pending_labels.simps) (simp add: n)
  next
    case False
    then show ?thesis
      by (subst pad_pending_labels.simps) simp
  qed
qed

lemma append_pending_spec:
  assumes "aligned p" and "int (length (pending_token_ids p)) \<le> msl"
    and "dict_get lm ign = Inr 0"
  shows "append_pending ign p msl lm = Inr (spec_padded_record msl p)"
  using assms
  by (simp add: append_pending_def pad_pending_eq pad_pending_labels_eq aligned_def
      spec_padded_record_def Let_def)

lemma append_pending_lengths:
  assumes "append_pending ign p msl lm = Inr f"
  shows "int (length (input_ids f)) = msl \<and> int (length (input_mask f)) = msl \<and>
         int (length (label_id f)) = msl \<and> int (length (valid_ids f)) = msl \<and>
         int (length (label_mask f)) = msl"
  using assms
  by (auto simp: append_pending_def split: sum.splits if_splits)

lemma lstm_example_lengths:
  assumes "lstm_example lm msl enc ex = Inr f" and "0 \<le> msl"
  shows "all_lengths msl f"
  using assms
  by (auto simp: lstm_example_def Let_def py_repeat_def py_slice0_def all_lengths_def
      split: sum.splits if_splits prod.splits dest!: lstm_label_loop_length)

lemma lstm_examples_loop_all:
  assumes "lstm_examples_loop lm msl enc exs fs0 = Inr fs"
    and "\<forall>f\<in>set fs0. P f"
    and "\<And>ex f. lstm_example lm msl enc ex = Inr f \<Longrightarrow> P f"
  shows "\<forall>f\<in>set fs. P f"
  using assms
proof (induction exs arbitrary: fs0)
  case Nil
  then show ?case by simp
next
  case (Cons ex exs)
  from Cons.prems(1) obtain f where f: "lstm_example lm msl enc ex = Inr f"
    and rest: "lstm_examples_loop lm msl enc exs (fs0 @ [f]) = Inr fs"
    by (auto split: sum.splits)
  have "\<forall>g\<in>set (fs0 @ [f]). P g"
    using Cons.prems(2) Cons.prems(3)[OF f] by simp
  from Cons.IH[OF rest this Cons.prems(3)] show ?case by simp
qed

lemma pack_step_features:
  assumes "pack_step lm msl s st = Inr st'"
    and "\<forall>f\<in>set (features st). Q f"
    and "\<And>p f. append_pending ignored_label p msl lm = Inr f \<Longrightarrow> Q f"
  shows "\<forall>f\<in>set (features st'). Q f"
  using assms
  by (auto simp: pack_step_def split: if_splits sum.splits)

lemma transformers_loop_features:
  assumes "transformers_loop lm msl enc exs st = Inr st'"
    and "\<forall>f\<in>set (features st). Q f"
    and "\<And>p f. append_pending ignored_label p msl lm = Inr f \<Longrightarrow> Q f"
  shows "\<forall>f\<in>set (features st'). Q f"
  using assms
proof (induction exs arbitrary: st)
  case Nil
  then show ?case by simp
next
  case (Cons ex exs)
  from Cons.prems(1) obtain s st1 where s: "example_sequence lm msl enc ex = Inr s"
    and st1: "pack_step lm msl s st = Inr st1"
    and rest: "transformers_loop lm msl enc exs st1 = Inr st'"
    by (auto split: sum.splits)
  have "\<forall>f\<in>set (features st1). Q f"
    using pack_step_features[OF st1 Cons.prems(2)] Cons.prems(3) by blast
  from Cons.IH[OF rest this Cons.prems(3)] show ?case .
qed

lemma transformers_all_lengths:
  assumes "convert_examples_to_features_Transformers examples label_list msl enc = Inr fs"
  shows "\<forall>f\<in>set fs. all_lengths msl f"
proof -
  let ?lm = "label_map_of label_list"
  from assms obtain st f where
    loop: "transformers_loop ?lm msl enc examples \<lparr>buffer = empty_pending, features = []\<rparr> = Inr st"
    and last: "append_pending ignored_label (buffer st) msl ?lm = Inr f"
    and fs: "fs = features st @ [f]"
    by (auto simp: convert_examples_to_features_Transformers_def Let_def split: sum.splits)
  have ap: "\<And>p g. append_pending ignored_label p msl ?lm = Inr g \<Longrightarrow> all_lengths msl g"
    using append_pending_lengths by (simp add: all_lengths_def)
  have "\<forall>g\<in>set (features st). all_lengths msl g"
    by (rule transformers_loop_features[OF loop _ ap]) simp_all
  with ap[OF last] fs show ?thesis by simp
qed

lemma lstm_all_lengths:
  assumes "convert_examples_to_features_LSTM examples label_list msl enc = Inr fs" and "0 \<le> msl"
  shows "\<forall>f\<in>set fs. all_lengths msl f"
  using assms(1) unfolding convert_examples_to_features_LSTM_def
  by (rule lstm_examples_loop_all) (simp_all add: lstm_example_lengths assms(2))

text \<open>
  Claim C5. Every Feature Record produced by either strategy (the dispatcher
  \<open>convert_examples_to_features\<close> selects the recurrent one for the model name
  \<open>LSTM\<close> and the transformer-packing one otherwise) has five arrays of length exactly
  \<open>max_seq_length\<close>. A length is a natural number, so \<open>max_seq_length\<close> is taken
  non-negative.
\<close>

theorem feature_arrays_have_max_seq_length:
  assumes "convert_examples_to_features examples label_list max_seq_length encode_method model_name
             = Inr fs"
    and "0 \<le> max_seq_length"
    and "f \<in> set fs"
  shows "int (length (input_ids f)) = max_seq_length \<and>
         int (length (input_mask f)) = max_seq_length \<and>
         int (length (label_id f)) = max_seq_length \<and>
         int (length (valid_ids f)) = max_seq_length \<and>
         int (length (label_mask f)) = max_seq_length"
proof -
  have "all_lengths max_seq_length f"
  proof (cases "model_name = ''LSTM''")
    case True
    with assms(1) have "convert_examples_to_features_LSTM examples label_list max_seq_length
        encode_method = Inr fs"
      by (simp add: convert_examples_to_features_def)
    from lstm_all_lengths[OF this assms(2)] assms(3) show ?thesis by blast
  next
    case False
    with assms(1) have "convert_examples_to_features_Transformers examples label_list
        max_seq_length encode_method = Inr fs"
      by (simp add: convert_examples_to_features_def)
    from transformers_all_lengths[OF this] assms(3) show ?thesis by blast
  qed
  then show ?thesis by (simp add: all_lengths_def)
qed

theorem feature_arrays_have_max_seq_length_witness:
  "convert_examples_to_features
     [\<lparr> guid = ''train-0'', text_a = ''a b'', text_b = None, label = [''O'', ''O''] \<rparr>]
     [''O''] 6 (\<lambda>a. case a of PyStr w \<Rightarrow> [5, 6] | PyList ws \<Rightarrow> [7, 7]) ''BERT''
   = Inr [\<lparr> input_ids = [0, 5, 6, 5, 6, 2], input_mask = [1, 1, 1, 1, 1, 1],
            label_id = [0, 1, 0, 1, 0, 0], valid_ids = [0, 1, 0, 1, 0, 0],
            label_mask = [0, 1, 0, 1, 0, 0] \<rparr>] \<and>
   (0::int) \<le> 6 \<and>
   int (length [0, 5, 6, 5, 6, 2 :: int]) = 6"
proof -
  have run: "convert_examples_to_features
     [\<lparr> guid = ''train-0'', text_a = ''a b'', text_b = None, label = [''O'', ''O''] \<rparr>]
     [''O''] 6 (\<lambda>a. case a of PyStr w \<Rightarrow> [5, 6] | PyList ws \<Rightarrow> [7, 7]) ''BERT''
   = Inr [\<lparr> input_ids = [0, 5, 6, 5, 6, 2], input_mask = [1, 1, 1, 1, 1, 1],
            label_id = [0, 1, 0, 1, 0, 0], valid_ids = [0, 1, 0, 1, 0, 0],
            label_mask = [0, 1, 0, 1, 0, 0] \<rparr>]"
    by code_simp
  have nonneg: "(0::int) \<le> 6" by simp
  from feature_arrays_have_max_seq_length[OF run nonneg, of
      "\<lparr> input_ids = [0, 5, 6, 5, 6, 2], input_mask = [1, 1, 1, 1, 1, 1],
            label_id = [0, 1, 0, 1, 0, 0], valid_ids = [0, 1, 0, 1, 0, 0],
            label_mask = [0, 1, 0, 1, 0, 0] \<rparr>"]
  have "int (length [0, 5, 6, 5, 6, 2 :: int]) = 6" by simp
  with run nonneg show ?thesis by blast
qed

lemma aligned_empty: "aligned empty_pending"
  by (simp add: aligned_def empty_pending_def)

text \<open>
  Claim C10. The final flush is unconditional: whenever the transformer-packing strategy
  returns, it returns at least one record, and on the empty example list it returns
  exactly one record made of padding only (token id 1, the three masks 0, label id 0,
  the id of IGNORE).
\<close>

theorem empty_input_gives_one_padding_record:
  "(0 \<le> max_seq_length \<longrightarrow>
      convert_examples_to_features_Transformers [] label_list max_seq_length encode_method =
        Inr [\<lparr> input_ids = replicate (nat max_seq_length) 1,
               input_mask = replicate (nat max_seq_length) 0,
               label_id = replicate (nat max_seq_length) 0,
               valid_ids = replicate (nat max_seq_length) 0,
               label_mask = replicate (nat max_seq_length) 0 \<rparr>]) \<and>
   (\<forall>examples fs.
      convert_examples_to_features_Transformers examples label_list max_seq_length encode_method
        = Inr fs \<longrightarrow> fs \<noteq> [])"
proof (intro conjI impI allI)
  assume "0 \<le> max_seq_length"
  then have "append_pending ignored_label empty_pending max_seq_length (label_map_of label_list)
      = Inr (spec_padded_record max_seq_length empty_pending)"
    by (intro append_pending_spec aligned_empty dict_get_ignored) (simp add: empty_pending_def)
  then show "convert_examples_to_features_Transformers [] label_list max_seq_length encode_method =
        Inr [\<lparr> input_ids = replicate (nat max_seq_length) 1,
               input_mask = replicate (nat max_seq_length) 0,
               label_id = replicate (nat max_seq_length) 0,
               valid_ids = replicate (nat max_seq_length) 0,
               label_mask = replicate (nat max_seq_length) 0 \<rparr>]"
    by (simp add: convert_examples_to_features_Transformers_def spec_padded_record_def
        empty_pending_def Let_def)
next
  fix examples fs
  assume "convert_examples_to_features_Transformers examples label_list max_seq_length
      encode_method = Inr fs"
  then show "fs \<noteq> []"
    by (auto simp: convert_examples_to_features_Transformers_def Let_def split: sum.splits)
qed

theorem empty_input_gives_one_padding_record_witness:
  "(0::int) \<le> 3 \<and>
   convert_examples_to_features_Transformers [] [''O''] 3 (\<lambda>_. []) =
     Inr [\<lparr> input_ids = [1, 1, 1], input_mask = [0, 0, 0], label_id = [0, 0, 0],
            valid_ids = [0, 0, 0], label_mask = [0, 0, 0] \<rparr>] \<and>
   convert_examples_to_features_Transformers [] [''O''] 3 (\<lambda>_. []) \<noteq> Inr []"
  using empty_input_gives_one_padding_record[of 3 "[''O'']" "\<lambda>_. []"]
  by (simp add: numeral_3_eq_3)

text \<open>
  Claim C1, at a failing input. One example with a single token, encoded to one id, and
  \<open>max_seq_length = 3\<close>: the token ids are padded to length 3 \<^emph>\<open>before\<close> the validity
  mask is built as \<open>[1] * len(token_ids)\<close>, so the mask is 1 at the two padding
  positions too, and the later \<open>extend\<close> with zeros adds nothing.
\<close>

theorem lstm_padding_marked_valid:
  "convert_examples_to_features_LSTM
     [\<lparr> guid = ''train-0'', text_a = ''a'', text_b = None, label = [''O''] \<rparr>] [''O''] 3
     (\<lambda>_. [7])
   = Inr [\<lparr> input_ids = [7, 0, 0], input_mask = [1, 1, 1], label_id = [1, 0, 0],
            valid_ids = [1, 1, 1], label_mask = [1, 0, 0] \<rparr>]"
  by code_simp

section \<open>Properties of the corpus loader\<close>

lemma load_loop_cap:
  assumes "\<forall>f\<in>set files. read_json (path @ ''/'' @ f) = Inr (doc f)"
    and "length x \<le> 100" and "100 < length x + length files"
  shows "load_loop read_json path files x y =
     Inr (x @ map (fst \<circ> doc) (take (101 - length x) files),
          y @ map (snd \<circ> doc) (take (101 - length x) files))"
  using assms
proof (induction files arbitrary: x y)
  case Nil
  then show ?case by simp
next
  case (Cons f files)
  obtain t l where d: "doc f = (t, l)" by (cases "doc f")
  with Cons.prems(1) have r: "read_json (path @ ''/'' @ f) = Inr (t, l)" by simp
  show ?case
  proof (cases "length x = 100")
    case True
    with r d show ?thesis by simp
  next
    case False
    with Cons.prems have lt: "length (x @ [t]) \<le> 100" "100 < length (x @ [t]) + length files"
      by simp_all
    from Cons.prems(1) have all: "\<forall>f\<in>set files. read_json (path @ ''/'' @ f) = Inr (doc f)"
      by simp
    have tk: "take (101 - length x) (f # files) = f # take (101 - length (x @ [t])) files"
      using Cons.prems(2) by (simp add: take_Cons' )
    from Cons.IH[OF all lt, of "y @ [l]"] r d False Cons.prems(2) show ?thesis
      by (simp add: tk Let_def del: take_Cons')
  qed
qed

lemma load_loop_no_cap:
  assumes "\<forall>f\<in>set files. read_json (path @ ''/'' @ f) = Inr (doc f)"
    and "length x + length files \<le> 100"
  shows "load_loop read_json path files x y =
     Inr (x @ map (fst \<circ> doc) files, y @ map (snd \<circ> doc) files)"
  using assms
proof (induction files arbitrary: x y)
  case Nil
  then show ?case by simp
next
  case (Cons f files)
  obtain t l where d: "doc f = (t, l)" by (cases "doc f")
  with Cons.prems(1) have r: "read_json (path @ ''/'' @ f) = Inr (t, l)" by simp
  from Cons.prems have "\<forall>f\<in>set files. read_json (path @ ''/'' @ f) = Inr (doc f)"
    and "length (x @ [t]) + length files \<le> 100"
    by simp_all
  from Cons.IH[OF this, of "y @ [l]"] r d Cons.prems(2) show ?case
    by (simp add: Let_def)
qed

lemma filter_json_all:
  assumes "\<forall>f\<in>set files. is_json f = Inr True"
  shows "filter_json files = Inr files"
  using assms by (induction files) simp_all

lemma py_split_json_name:
  "py_split CHR ''.'' (replicate n CHR ''a'' @ ''.json'') = [replicate n CHR ''a'', ''json'']"
  by (induction n) simp_all

lemma is_json_name: "is_json (replicate n CHR ''a'' @ ''.json'') = Inr True"
  by (simp add: is_json_def py_split_json_name)

text \<open>
  Claim C7, at a failing input. A directory listing 102 annotation files (\<open>a.json\<close>,
  \<open>aa.json\<close>, and so on): the loop appends a document and only then tests
  \<open>len(x_train) > 100\<close>, so it returns the first 101 documents, not the first 100.
\<close>

theorem loader_returns_101_documents:
  "load_from_folder
     (\<lambda>p. Inr (map (\<lambda>n. replicate n CHR ''a'' @ ''.json'') [1 ..< 103]))
     (\<lambda>p. Inr ([p], [''O''])) ''corpus''
   = Inr (map (\<lambda>n. [''corpus/'' @ replicate n CHR ''a'' @ ''.json'']) [1 ..< 102],
          replicate 101 [''O''])"
proof -
  let ?name = "\<lambda>n. replicate n CHR ''a'' @ ''.json''"
  let ?files = "map ?name [1 ..< 103]"
  let ?read = "\<lambda>p :: string. (Inr ([p], [''O'']) :: py_error + document)"
  let ?doc = "\<lambda>f :: string. ([''corpus/'' @ f], [''O''])"
  have f: "filter_json ?files = Inr ?files"
    by (rule filter_json_all) (auto simp: is_json_name)
  have tk: "take 101 ?files = map ?name [1 ..< 102]"
    by (simp add: take_map)
  have "load_loop ?read ''corpus'' ?files [] [] =
     Inr ([] @ map (fst \<circ> ?doc) (take (101 - length ([] :: string list list)) ?files),
          [] @ map (snd \<circ> ?doc) (take (101 - length ([] :: string list list)) ?files))"
    by (rule load_loop_cap) simp_all
  also have "map (fst \<circ> ?doc) (take (101 - length ([] :: string list list)) ?files)
      = map (\<lambda>n. [''corpus/'' @ replicate n CHR ''a'' @ ''.json'']) [1 ..< 102]"
    unfolding list.size minus_nat.diff_0 tk by (simp add: comp_def)
  also have "map (snd \<circ> ?doc) (take (101 - length ([] :: string list list)) ?files)
      = replicate 101 [''O'']"
    unfolding list.size minus_nat.diff_0 tk by (simp add: comp_def map_replicate_const)
  finally have ll: "load_loop ?read ''corpus'' ?files [] [] =
     Inr (map (\<lambda>n. [''corpus/'' @ replicate n CHR ''a'' @ ''.json'']) [1 ..< 102],
          replicate 101 [''O''])"
    by (simp only: append_Nil)
  show ?thesis
    by (simp only: load_from_folder_def sum.case f ll)
qed

section \<open>Properties of the checks of \<open>Transformers.train\<close>\<close>

lemma percent_format_no_conversion:
  assumes "CHR ''%'' \<notin> set fmt" and "args \<noteq> []"
  shows "percent_format fmt args =
     Inl (TypeError ''not all arguments converted during string formatting'')"
  using assms
  by (induction fmt args rule: percent_format.induct) auto

text \<open>
  Claim C8, at a failing input. A fresh output directory and
  \<open>gradient_accumulation_steps = 0\<close>: the message of the intended ValueError is built
  with \<open>%\<close> from a format that has a \<open>{}\<close> placeholder and no conversion, which
  raises TypeError before the ValueError is constructed. No work is started (the result
  does not depend on the continuation).
\<close>

theorem invalid_accumulation_steps_raises_TypeError:
  "train Map.empty ''out'' 32 0 work =
     Inl (TypeError ''not all arguments converted during string formatting'')"
  by (simp add: train_def path_exists_def percent_format_no_conversion)

lemma train_nonempty_dir:
  assumes "fs output_dir = Some (Dir entries)" and "entries \<noteq> []"
  shows "\<exists>msg. train fs output_dir tbs gas work = Inl (ValueError msg)"
  using assms
  by (simp add: train_def path_exists_def os_listdir_def render_def)

section \<open>Properties of the epoch loop\<close>

lemma best_so_far_Suc:
  "best_so_far evaluate (Suc (Suc k)) = max (evaluate (Suc k)) (best_so_far evaluate (Suc k))"
proof -
  let ?S = "evaluate ` {1 ..< Suc k}"
  have "{1 ..< Suc (Suc k)} = insert (Suc k) {1 ..< Suc k}"
    by auto
  then have "insert 0 (evaluate ` {1 ..< Suc (Suc k)}) = insert (evaluate (Suc k)) (insert 0 ?S)"
    by (simp only: image_insert insert_commute)
  moreover have "Max (insert (evaluate (Suc k)) (insert 0 ?S))
      = max (evaluate (Suc k)) (Max (insert 0 ?S))"
    by (rule Max_insert) simp_all
  ultimately show ?thesis
    by (simp only: best_so_far_def)
qed

lemma best_so_far_1: "best_so_far evaluate (Suc 0) = 0"
  by (simp add: best_so_far_def)

lemma epoch_step_best:
  "best_val_f1 (epoch_step save evaluate n st) = max (evaluate n) (best_val_f1 st)"
  by (simp add: epoch_step_def Let_def max_def)

lemma epoch_step_saved:
  "SaveBest e \<in> set (saved (epoch_step save evaluate n st)) \<longleftrightarrow>
     SaveBest e \<in> set (saved st) \<or> (e = n \<and> evaluate n > best_val_f1 st)"
  by (auto simp: epoch_step_def Let_def)

lemma epochs_invariant:
  fixes k :: nat and save :: bool and evaluate :: "nat \<Rightarrow> real"
  defines "run \<equiv> \<lambda>k. fold (epoch_step save evaluate) [1 ..< Suc k]
                        \<lparr> best_val_f1 = 0, saved = [] \<rparr>"
  shows "best_val_f1 (run k) = best_so_far evaluate (Suc k) \<and>
   (\<forall>e. SaveBest e \<in> set (saved (run k))
      \<longleftrightarrow> 1 \<le> e \<and> e \<le> k \<and> evaluate e > best_so_far evaluate e)"
proof (induction k)
  case 0
  show ?case by (simp add: run_def best_so_far_1)
next
  case (Suc k)
  have unfold: "run (Suc k) = epoch_step save evaluate (Suc k) (run k)"
    by (simp add: run_def)
  from Suc have best: "best_val_f1 (run k) = best_so_far evaluate (Suc k)"
    and sv: "\<And>e. SaveBest e \<in> set (saved (run k))
        \<longleftrightarrow> 1 \<le> e \<and> e \<le> k \<and> evaluate e > best_so_far evaluate e"
    by blast+
  have b: "best_val_f1 (run (Suc k)) = best_so_far evaluate (Suc (Suc k))"
    by (simp only: unfold epoch_step_best best best_so_far_Suc)
  have s: "SaveBest e \<in> set (saved (run (Suc k)))
        \<longleftrightarrow> 1 \<le> e \<and> e \<le> Suc k \<and> evaluate e > best_so_far evaluate e" for e
    unfolding unfold epoch_step_saved sv best
    by (cases "e = Suc k") auto
  show ?case
    using b s by blast
qed

lemma epochs_range_3: "[1 ..< nat (3 + 1)] = [1, 2, 3]"
  by (simp add: upt_conv_Cons)

lemma train_epochs_example: "saved (train_epochs False (\<lambda>n. [0.5, 0.4, 0.6] ! (n - 1)) 3)
      = [SaveBest 1, SaveBest 3]"
  unfolding train_epochs_def epochs_range_3 by (simp add: epoch_step_def Let_def)

lemma train_epochs_saved:
  "SaveBest e \<in> set (saved (train_epochs epoch_save_model evaluate epochs))
      \<longleftrightarrow> 1 \<le> e \<and> int e \<le> epochs \<and> evaluate e > best_so_far evaluate e"
proof (cases "0 \<le> epochs")
  case True
  then have n: "nat (epochs + 1) = Suc (nat epochs)" by simp
  from True have le: "e \<le> nat epochs \<longleftrightarrow> int e \<le> epochs" by linarith
  show ?thesis
    unfolding train_epochs_def n
    using epochs_invariant[of epoch_save_model evaluate "nat epochs"] le by blast
next
  case False
  then have "[1 ..< nat (epochs + 1)] = []" by simp
  then have "saved (train_epochs epoch_save_model evaluate epochs) = []"
    by (simp only: train_epochs_def fold.simps id_apply trainer_state.simps)
  with False show ?thesis
    by auto
qed

text \<open>
  Claim C9. The best checkpoint is written at epoch \<open>e\<close> exactly when \<open>e\<close> is one of
  the epochs run and its validation F1 is strictly greater than the best F1 seen before
  it (the maximum of 0.0 and the F1 of the earlier epochs); for the F1 sequence
  0.5, 0.4, 0.6 the writes are those of epochs 1 and 3.
\<close>

theorem checkpoint_written_iff_f1_improves:
  "(SaveBest e \<in> set (saved (train_epochs epoch_save_model evaluate epochs))
      \<longleftrightarrow> 1 \<le> e \<and> int e \<le> epochs \<and> evaluate e > best_so_far evaluate e) \<and>
   saved (train_epochs False (\<lambda>n. [0.5, 0.4, 0.6] ! (n - 1)) 3) = [SaveBest 1, SaveBest 3]"
  using train_epochs_saved train_epochs_example by blast

theorem checkpoint_written_iff_f1_improves_witness:
  "best_so_far (\<lambda>n. [0.5, 0.4, 0.6] ! (n - 1)) 2 = 0.5 \<and>
   SaveBest 2 \<notin> set (saved (train_epochs False (\<lambda>n. [0.5, 0.4, 0.6] ! (n - 1)) 3))"
proof -
  have "{1 ..< 2 :: nat} = {1}" by auto
  then have b: "best_so_far (\<lambda>n. [0.5, 0.4, 0.6] ! (n - 1)) 2 = 0.5"
    by (simp add: best_so_far_def)
  from checkpoint_written_iff_f1_improves[of 2 False "\<lambda>n. [0.5, 0.4, 0.6] ! (n - 1)" 3]
  have "SaveBest 2 \<in> set (saved (train_epochs False (\<lambda>n. [0.5, 0.4, 0.6] ! (n - 1)) 3))
      \<longleftrightarrow> 1 \<le> (2::nat) \<and> int 2 \<le> 3 \<and>
          [0.5, 0.4, 0.6] ! (2 - 1) > best_so_far (\<lambda>n. [0.5, 0.4, 0.6] ! (n - 1)) 2"
    by (rule conjunct1)
  with b show ?thesis by simp
qed

section \<open>Properties of the per-example encoding\<close>

lemma length_word_labels [simp]: "length (word_labels l k) = k"
  by (simp add: word_labels_def split: nat.splits)

lemma length_word_flags [simp]: "length (word_flags k) = k"
  by (simp add: word_flags_def split: nat.splits)

lemma word_labels_0 [simp]: "word_labels l 0 = []"
  by (simp add: word_labels_def)

lemma word_flags_0 [simp]: "word_flags 0 = []"
  by (simp add: word_flags_def)

lemma word_labels_Suc:
  "word_labels l (Suc k) = (if k = 0 then [l] else word_labels l k @ [ignored_label])"
  by (cases k) (simp_all add: word_labels_def replicate_append_same)

lemma word_flags_Suc:
  "word_flags (Suc k) = (if k = 0 then [1] else word_flags k @ [0])"
  by (cases k) (simp_all add: word_flags_def replicate_append_same)

lemma pieces_fold:
  "fold (piece_step l) [0 ..< k] acc =
     acc\<lparr> ex_labels := ex_labels acc @ word_labels l k,
          ex_valid := ex_valid acc @ word_flags k,
          ex_label_mask := ex_label_mask acc @ word_flags k \<rparr>"
proof (induction k)
  case 0
  show ?case by (simp add: word_labels_def word_flags_def)
next
  case (Suc k)
  have "fold (piece_step l) [0 ..< Suc k] acc = piece_step l k (fold (piece_step l) [0 ..< k] acc)"
    by simp
  also have "\<dots> = acc\<lparr> ex_labels := ex_labels acc @ word_labels l (Suc k),
          ex_valid := ex_valid acc @ word_flags (Suc k),
          ex_label_mask := ex_label_mask acc @ word_flags (Suc k) \<rparr>"
    unfolding Suc.IH by (simp add: piece_step_def word_labels_Suc word_flags_Suc)
  finally show ?case .
qed

lemma encode_words_eq:
  assumes "encode_words enc labellist (enumerate i ws) acc = Inr p"
  shows "(ws \<noteq> [] \<longrightarrow> i + length ws \<le> length labellist) \<and>
     ex_token_ids p = ex_token_ids acc @ concat (map (\<lambda>w. enc (PyStr (py_strip w))) ws) \<and>
     ex_labels p = ex_labels acc @
        concat (map (\<lambda>(j, w). word_labels (labellist ! j) (n_pieces enc w)) (enumerate i ws)) \<and>
     ex_valid p = ex_valid acc @ concat (map (\<lambda>w. word_flags (n_pieces enc w)) ws) \<and>
     ex_label_mask p = ex_label_mask acc @ concat (map (\<lambda>w. word_flags (n_pieces enc w)) ws)"
  using assms
proof (induction ws arbitrary: i acc)
  case Nil
  then show ?case by simp
next
  case (Cons w ws)
  let ?acc' = "fold (piece_step (labellist ! i)) [0 ..< length (enc (PyStr (py_strip w)))]
                 (acc\<lparr> ex_token_ids := ex_token_ids acc @ enc (PyStr (py_strip w)) \<rparr>)"
  from Cons.prems have i: "i < length labellist"
    and rest: "encode_words enc labellist (enumerate (Suc i) ws) ?acc' = Inr p"
    by (auto simp: Let_def split: if_splits)
  from Cons.IH[OF rest] i show ?case
    by (auto simp: pieces_fold n_pieces_def)
qed

lemma encode_words_total:
  assumes "i + length ws \<le> length labellist"
  shows "\<exists>p. encode_words enc labellist (enumerate i ws) acc = Inr p"
  using assms
proof (induction ws arbitrary: i acc)
  case Nil
  then show ?case by simp
next
  case (Cons w ws)
  then show ?case by (simp add: Let_def)
qed

lemma nth_concat_offset:
  assumes "i < length xs" and "m < length (f (xs ! i))"
  shows "concat (map f xs) ! (sum_list (map (\<lambda>x. length (f x)) (take i xs)) + m) = f (xs ! i) ! m"
  using assms
proof (induction xs arbitrary: i)
  case Nil
  then show ?case by simp
next
  case (Cons x xs)
  show ?case
  proof (cases i)
    case 0
    with Cons.prems show ?thesis by (simp add: nth_append)
  next
    case (Suc j)
    with Cons.prems have "j < length xs" "m < length (f (xs ! j))" by simp_all
    from Cons.IH[OF this] Suc show ?thesis by (simp add: nth_append add.assoc)
  qed
qed

lemma length_concat_offset:
  assumes "i < length xs"
  shows "sum_list (map (\<lambda>x. length (f x)) (take i xs)) + length (f (xs ! i))
           \<le> length (concat (map f xs))"
proof -
  have "xs = take i xs @ xs ! i # drop (Suc i) xs"
    using assms by (simp add: id_take_nth_drop)
  then have "concat (map f xs) = concat (map f (take i xs)) @ f (xs ! i) @ concat (map f (drop (Suc i) xs))"
    by (metis concat.simps(2) concat_append list.simps(9) map_append)
  then show ?thesis
    by (simp add: length_concat comp_def)
qed

lemma word_labels_nth:
  assumes "m < k"
  shows "word_labels l k ! m = (if m = 0 then l else ignored_label)"
  using assms by (cases k) (auto simp: word_labels_def nth_Cons')

lemma word_flags_nth:
  assumes "m < k"
  shows "word_flags k ! m = (if m = 0 then 1 else 0)"
  using assms by (cases k) (auto simp: word_flags_def nth_Cons')

lemma encode_example_eq:
  assumes "encode_example enc example = Inr p"
  shows "length (py_split CHR '' '' (text_a example)) \<le> length (label example) \<and>
     ex_token_ids p = concat (map (\<lambda>w. enc (PyStr (py_strip w))) (py_split CHR '' '' (text_a example))) \<and>
     ex_labels p = concat (map (\<lambda>(j, w). word_labels (label example ! j) (n_pieces enc w))
                      (enumerate 0 (py_split CHR '' '' (text_a example)))) \<and>
     ex_valid p = concat (map (\<lambda>w. word_flags (n_pieces enc w)) (py_split CHR '' '' (text_a example))) \<and>
     ex_label_mask p = concat (map (\<lambda>w. word_flags (n_pieces enc w)) (py_split CHR '' '' (text_a example)))"
proof -
  have ne: "py_split CHR '' '' t \<noteq> []" for t
    by (induction t) (auto split: list.splits)
  from encode_words_eq[OF assms[unfolded encode_example_def]] ne show ?thesis
    by (simp add: no_pieces_def)
qed

text \<open>
  Claim C4. For a word at index \<open>i\<close> that the encoder maps to \<open>k \<ge> 1\<close> pieces, whose
  pieces start at offset \<open>off\<close> (the number of pieces of the earlier words) in the lists
  built by lines 122--134: the \<open>k\<close> positions hold the word's pieces, the first one has
  the word's label with validity 1 and label mask 1, and each of the other \<open>k - 1\<close> has
  the IGNORE label with validity 0 and label mask 0.
\<close>

theorem first_piece_carries_word_label:
  assumes "encode_example encode_method example = Inr p"
    and "words = py_split CHR '' '' (text_a example)"
    and "i < length words"
    and "k = length (encode_method (PyStr (py_strip (words ! i))))"
    and "1 \<le> k"
    and "off = sum_list (map (\<lambda>w. length (encode_method (PyStr (py_strip w)))) (take i words))"
  shows "off + k \<le> length (ex_token_ids p) \<and>
     (\<forall>m < k. ex_token_ids p ! (off + m) = encode_method (PyStr (py_strip (words ! i))) ! m) \<and>
     ex_labels p ! off = label example ! i \<and>
     ex_valid p ! off = 1 \<and>
     ex_label_mask p ! off = 1 \<and>
     (\<forall>m. 1 \<le> m \<and> m < k \<longrightarrow>
        ex_labels p ! (off + m) = ignored_label \<and>
        ex_valid p ! (off + m) = 0 \<and>
        ex_label_mask p ! (off + m) = 0)"
proof -
  define pieces_of where "pieces_of = (\<lambda>w. encode_method (PyStr (py_strip w)))"
  note eq = encode_example_eq[OF assms(1), folded assms(2)]
  let ?g = "\<lambda>(j, w). word_labels (label example ! j) (n_pieces encode_method w)"
  let ?h = "\<lambda>w. word_flags (n_pieces encode_method w)"
  let ?en = "enumerate 0 words"
  have np: "n_pieces encode_method w = length (pieces_of w)" for w
    by (simp add: n_pieces_def pieces_of_def)
  have k: "k = n_pieces encode_method (words ! i)"
    using assms(4) by (simp add: n_pieces_def)
  have off_t: "off = sum_list (map (\<lambda>w. length (pieces_of w)) (take i words))"
    using assms(6) by (simp add: pieces_of_def)
  have off_h: "off = sum_list (map (\<lambda>w. length (?h w)) (take i words))"
    using off_t by (simp add: np)
  have "map (\<lambda>x. length (?g x)) (take i ?en) = map (\<lambda>w. length (pieces_of w)) (map snd (take i ?en))"
    by (simp add: np case_prod_beta comp_def)
  also have "map snd (take i ?en) = take i words"
    by (simp add: take_map[symmetric])
  finally have off_g: "off = sum_list (map (\<lambda>x. length (?g x)) (take i ?en))"
    using off_t by simp
  have en_i: "?en ! i = (i, words ! i)"
    using assms(3) by (simp add: nth_enumerate_eq)
  have i_en: "i < length ?en" using assms(3) by simp
  have toks: "ex_token_ids p = concat (map pieces_of words)"
    using eq by (simp add: pieces_of_def)
  have tok: "ex_token_ids p ! (off + m) = pieces_of (words ! i) ! m" if "m < k" for m
  proof -
    have "m < length (pieces_of (words ! i))" using that k np by simp
    from nth_concat_offset[where f = pieces_of, OF assms(3) this] toks off_t show ?thesis
      by simp
  qed
  have len: "off + k \<le> length (ex_token_ids p)"
    using length_concat_offset[where f = pieces_of, OF assms(3)] toks off_t k np by simp
  have lab: "ex_labels p ! (off + m) = (if m = 0 then label example ! i else ignored_label)"
    if "m < k" for m
  proof -
    have "m < length (?g (?en ! i))" using that k en_i by simp
    from nth_concat_offset[where f = ?g, OF i_en this] eq off_g that k en_i show ?thesis
      by (simp add: word_labels_nth)
  qed
  have flag: "concat (map ?h words) ! (off + m) = (if m = 0 then 1 else 0)" if "m < k" for m
  proof -
    have "m < length (?h (words ! i))" using that k by simp
    from nth_concat_offset[where f = ?h, OF assms(3) this] off_h that k show ?thesis
      by (simp add: word_flags_nth)
  qed
  have pos: "0 < k" using assms(5) by simp
  have v: "ex_valid p = concat (map ?h words)" and lm: "ex_label_mask p = concat (map ?h words)"
    using eq by simp_all
  show ?thesis
    unfolding v lm
    using len tok lab[OF pos] flag[OF pos] lab flag by (auto simp: pieces_of_def)
qed

lemma encode_words_aligned:
  assumes "encode_words enc labellist ws acc = Inr p" and "pieces_aligned acc"
  shows "pieces_aligned p"
  using assms
proof (induction ws arbitrary: acc)
  case Nil
  then show ?case by simp
next
  case (Cons iw ws)
  obtain i w where iw: "iw = (i, w)" by (cases iw)
  let ?acc' = "fold (piece_step (labellist ! i)) [0 ..< length (enc (PyStr (py_strip w)))]
                 (acc\<lparr> ex_token_ids := ex_token_ids acc @ enc (PyStr (py_strip w)) \<rparr>)"
  from Cons.prems(1) iw have rest: "encode_words enc labellist ws ?acc' = Inr p"
    by (auto simp: Let_def split: if_splits)
  have "pieces_aligned ?acc'"
    using Cons.prems(2) by (simp add: pieces_fold pieces_aligned_def)
  from Cons.IH[OF rest this] show ?case .
qed

lemma encode_example_aligned:
  assumes "encode_example enc example = Inr p"
  shows "pieces_aligned p"
  using assms unfolding encode_example_def
  by (rule encode_words_aligned) (simp add: pieces_aligned_def no_pieces_def)

lemma dict_get_Inr: "dict_get lm x = Inr v \<longleftrightarrow> lm x = Some v"
  by (simp add: dict_get_def split: option.splits)

lemma label_ids_loop_eq:
  assumes "label_ids_loop lm labels idxs acc = Inr ids"
  shows "map Some ids = map Some acc @ map (\<lambda>i. lm (labels ! i)) idxs"
  using assms
proof (induction idxs arbitrary: acc)
  case Nil
  then show ?case by simp
next
  case (Cons i idxs)
  from Cons.prems obtain v where v: "lm (labels ! i) = Some v"
    and rest: "label_ids_loop lm labels idxs (acc @ [v]) = Inr ids"
    by (auto simp: dict_get_Inr split: if_splits sum.splits)
  from Cons.IH[OF rest] v show ?case by simp
qed

lemma label_ids_loop_all:
  assumes "label_ids_loop lm labels [0 ..< length labels] [] = Inr ids"
  shows "map Some ids = map lm labels"
proof -
  have "map (\<lambda>i. lm (labels ! i)) [0 ..< length labels] = map lm (map ((!) labels) [0 ..< length labels])"
    by simp
  also have "\<dots> = map lm labels"
    by (simp only: map_nth)
  finally show ?thesis
    using label_ids_loop_eq[OF assms] by simp
qed

lemma example_sequence_eq:
  assumes "encode_example enc example = Inr p0"
    and "example_sequence lm msl enc example = Inr s"
  shows "pending_token_ids s = ex_token_ids (add_markers (trim_extra msl p0)) \<and>
     map Some (pending_label_ids s) = map lm (ex_labels (add_markers (trim_extra msl p0))) \<and>
     pending_valid s = ex_valid (add_markers (trim_extra msl p0)) \<and>
     pending_label_mask s = ex_label_mask (add_markers (trim_extra msl p0)) \<and>
     pending_input_mask s = replicate (length (ex_token_ids (add_markers (trim_extra msl p0)))) 1"
proof -
  let ?q = "add_markers (trim_extra msl p0)"
  from assms obtain ids where
    len: "length (ex_token_ids ?q) = length (ex_labels ?q)"
    and loop: "label_ids_loop lm (ex_labels ?q) [0 ..< length (ex_token_ids ?q)] [] = Inr ids"
    and s: "s = \<lparr> pending_token_ids = ex_token_ids ?q,
                  pending_input_mask = py_repeat 1 (int (length (ex_token_ids ?q))),
                  pending_label_ids = ids,
                  pending_valid = ex_valid ?q,
                  pending_label_mask = ex_label_mask ?q \<rparr>"
    by (auto simp: example_sequence_def Let_def split: sum.splits if_splits)
  from loop len have "map Some ids = map lm (ex_labels ?q)"
    by (simp add: label_ids_loop_all)
  with s show ?thesis by (simp add: py_repeat_def)
qed

lemma trim_extra_eq:
  assumes "2 \<le> msl"
  shows "trim_extra msl p0 =
     \<lparr> ex_token_ids = spec_trim msl (length (ex_token_ids p0)) (ex_token_ids p0),
       ex_labels = spec_trim msl (length (ex_token_ids p0)) (ex_labels p0),
       ex_valid = spec_trim msl (length (ex_token_ids p0)) (ex_valid p0),
       ex_label_mask = spec_trim msl (length (ex_token_ids p0)) (ex_label_mask p0) \<rparr>"
  using assms by (simp add: trim_extra_def spec_trim_def py_slice0_def)

text \<open>
  Claim C3. With \<open>n\<close> the sub-word-encoded length of an example before the sentence
  markers: if \<open>n \<ge> max_seq_length - 1\<close> the token-id, label, validity and label-mask
  lists are cut to length \<open>max_seq_length - 2\<close>, otherwise they are kept; in both cases
  id 0 is put in front and id 2 at the end, both with the IGNORE label (label id 0),
  validity 0 and label mask 0. \<open>max_seq_length - 2\<close> is a length, so
  \<open>max_seq_length \<ge> 2\<close>.
\<close>

theorem truncation_then_sentence_markers:
  assumes "encode_example encode_method example = Inr p0"
    and "example_sequence (label_map_of label_list) max_seq_length encode_method example = Inr s"
    and "2 \<le> max_seq_length"
    and "n = length (ex_token_ids p0)"
  shows "pending_token_ids s = 0 # spec_trim max_seq_length n (ex_token_ids p0) @ [2] \<and>
     ex_labels (add_markers (trim_extra max_seq_length p0)) =
       ignored_label # spec_trim max_seq_length n (ex_labels p0) @ [ignored_label] \<and>
     map Some (pending_label_ids s) =
       Some 0 # map (label_map_of label_list) (spec_trim max_seq_length n (ex_labels p0)) @ [Some 0] \<and>
     pending_valid s = 0 # spec_trim max_seq_length n (ex_valid p0) @ [0] \<and>
     pending_label_mask s = 0 # spec_trim max_seq_length n (ex_label_mask p0) @ [0] \<and>
     (max_seq_length - 1 \<le> int n \<longrightarrow>
        int (length (spec_trim max_seq_length n (ex_token_ids p0))) = max_seq_length - 2 \<and>
        int (length (spec_trim max_seq_length n (ex_labels p0))) = max_seq_length - 2 \<and>
        int (length (spec_trim max_seq_length n (ex_valid p0))) = max_seq_length - 2 \<and>
        int (length (spec_trim max_seq_length n (ex_label_mask p0))) = max_seq_length - 2) \<and>
     (int n < max_seq_length - 1 \<longrightarrow>
        spec_trim max_seq_length n (ex_token_ids p0) = ex_token_ids p0 \<and>
        spec_trim max_seq_length n (ex_labels p0) = ex_labels p0 \<and>
        spec_trim max_seq_length n (ex_valid p0) = ex_valid p0 \<and>
        spec_trim max_seq_length n (ex_label_mask p0) = ex_label_mask p0)"
proof -
  note seq = example_sequence_eq[OF assms(1,2)]
  note trim = trim_extra_eq[OF assms(3), of p0, folded assms(4)]
  have al: "pieces_aligned p0" by (rule encode_example_aligned[OF assms(1)])
  have marks: "ex_token_ids (add_markers (trim_extra max_seq_length p0)) =
        0 # spec_trim max_seq_length n (ex_token_ids p0) @ [2]"
      "ex_labels (add_markers (trim_extra max_seq_length p0)) =
        ignored_label # spec_trim max_seq_length n (ex_labels p0) @ [ignored_label]"
      "ex_valid (add_markers (trim_extra max_seq_length p0)) =
        0 # spec_trim max_seq_length n (ex_valid p0) @ [0]"
      "ex_label_mask (add_markers (trim_extra max_seq_length p0)) =
        0 # spec_trim max_seq_length n (ex_label_mask p0) @ [0]"
    unfolding trim by (simp_all add: add_markers_def)
  have lens: "max_seq_length - 1 \<le> int n \<longrightarrow>
        int (length (spec_trim max_seq_length n (ex_token_ids p0))) = max_seq_length - 2 \<and>
        int (length (spec_trim max_seq_length n (ex_labels p0))) = max_seq_length - 2 \<and>
        int (length (spec_trim max_seq_length n (ex_valid p0))) = max_seq_length - 2 \<and>
        int (length (spec_trim max_seq_length n (ex_label_mask p0))) = max_seq_length - 2"
    using al assms(3,4) by (auto simp: spec_trim_def pieces_aligned_def)
  have same: "int n < max_seq_length - 1 \<longrightarrow>
        spec_trim max_seq_length n (ex_token_ids p0) = ex_token_ids p0 \<and>
        spec_trim max_seq_length n (ex_labels p0) = ex_labels p0 \<and>
        spec_trim max_seq_length n (ex_valid p0) = ex_valid p0 \<and>
        spec_trim max_seq_length n (ex_label_mask p0) = ex_label_mask p0"
    by (simp add: spec_trim_def)
  have ids: "map Some (pending_label_ids s) =
       Some 0 # map (label_map_of label_list) (spec_trim max_seq_length n (ex_labels p0)) @ [Some 0]"
    using seq marks(2) by (simp add: label_map_of_ignored)
  from seq marks ids lens same show ?thesis by simp
qed

section \<open>Properties of the packing\<close>

lemma trim_extra_aligned:
  assumes "pieces_aligned p"
  shows "pieces_aligned (trim_extra msl p)"
  using assms by (simp add: trim_extra_def pieces_aligned_def py_slice0_def)

lemma add_markers_aligned:
  assumes "pieces_aligned p"
  shows "pieces_aligned (add_markers p)"
  using assms by (simp add: add_markers_def pieces_aligned_def)

lemma example_sequence_aligned:
  assumes "example_sequence lm msl enc example = Inr s"
  shows "aligned s"
proof -
  from assms obtain p0 where p0: "encode_example enc example = Inr p0"
    by (auto simp: example_sequence_def split: sum.splits)
  have al: "pieces_aligned (add_markers (trim_extra msl p0))"
    by (intro add_markers_aligned trim_extra_aligned encode_example_aligned[OF p0])
  have "map Some (pending_label_ids s) = map lm (ex_labels (add_markers (trim_extra msl p0)))"
    using example_sequence_eq[OF p0 assms] by blast
  then have "length (pending_label_ids s) = length (ex_labels (add_markers (trim_extra msl p0)))"
    by (metis length_map)
  then show ?thesis
    using example_sequence_eq[OF p0 assms] al by (simp add: aligned_def pieces_aligned_def)
qed

lemma example_sequence_fits:
  assumes "example_sequence lm msl enc example = Inr s" and "2 \<le> msl"
  shows "int (length (pending_token_ids s)) \<le> msl"
proof -
  from assms obtain p0 where p0: "encode_example enc example = Inr p0"
    by (auto simp: example_sequence_def split: sum.splits)
  from example_sequence_eq[OF p0 assms(1)] assms(2) show ?thesis
    by (auto simp: trim_extra_eq add_markers_def spec_trim_def)
qed

lemma extend_pending_aligned:
  assumes "aligned p" and "aligned s"
  shows "aligned (extend_pending p s)"
  using assms by (simp add: aligned_def extend_pending_def)

lemma extend_pending_empty: "extend_pending empty_pending s = s"
  by (simp add: extend_pending_def empty_pending_def)

lemma length_extend_pending:
  "length (pending_token_ids (extend_pending p s))
     = length (pending_token_ids p) + length (pending_token_ids s)"
  by (simp add: extend_pending_def)

lemma pack_step_spec:
  assumes "aligned (buffer st)" and "int (length (pending_token_ids (buffer st))) \<le> msl"
  shows "pack_step (label_map_of ll) msl s st =
     Inr (if int (length (pending_token_ids s)) + int (length (pending_token_ids (buffer st))) > msl
          then \<lparr> buffer = s, features = features st @ [spec_padded_record msl (buffer st)] \<rparr>
          else \<lparr> buffer = extend_pending (buffer st) s, features = features st \<rparr>)"
  using assms
  by (simp add: pack_step_def append_pending_spec dict_get_ignored)

lemma transformers_loop_spec:
  assumes "list_all2 (\<lambda>ex s. example_sequence (label_map_of ll) msl enc ex = Inr s) examples seqs"
    and "\<forall>s\<in>set seqs. int (length (pending_token_ids s)) \<le> msl"
    and "aligned (buffer st)"
    and "int (length (pending_token_ids (buffer st))) \<le> msl"
  shows "\<exists>st'. transformers_loop (label_map_of ll) msl enc examples st = Inr st' \<and>
           aligned (buffer st') \<and>
           int (length (pending_token_ids (buffer st'))) \<le> msl \<and>
           features st' @ [spec_padded_record msl (buffer st')] =
             features st @ map (spec_padded_record msl) (spec_pack msl (buffer st) seqs)"
  using assms
proof (induction examples seqs arbitrary: st rule: list_all2_induct)
  case Nil
  then show ?case by simp
next
  case (Cons ex examples s seqs)
  let ?lm = "label_map_of ll"
  have s_al: "aligned s" by (rule example_sequence_aligned[OF Cons.hyps(1)])
  have s_fit: "int (length (pending_token_ids s)) \<le> msl" using Cons.prems(1) by simp
  have rest_fit: "\<forall>s\<in>set seqs. int (length (pending_token_ids s)) \<le> msl"
    using Cons.prems(1) by simp
  note step = pack_step_spec[OF Cons.prems(2,3), of ll s]
  show ?case
  proof (cases "int (length (pending_token_ids s)) + int (length (pending_token_ids (buffer st))) > msl")
    case True
    let ?st1 = "\<lparr> buffer = s, features = features st @ [spec_padded_record msl (buffer st)] \<rparr>"
    from step True have st1: "pack_step ?lm msl s st = Inr ?st1" by simp
    from Cons.IH[OF rest_fit, of ?st1] s_al s_fit obtain st' where
      "transformers_loop ?lm msl enc examples ?st1 = Inr st'"
      "aligned (buffer st')" "int (length (pending_token_ids (buffer st'))) \<le> msl"
      "features st' @ [spec_padded_record msl (buffer st')] =
         features ?st1 @ map (spec_padded_record msl) (spec_pack msl (buffer ?st1) seqs)"
      by auto
    with Cons.hyps(1) st1 True show ?thesis
      by (auto simp: add.commute)
  next
    case False
    let ?st1 = "\<lparr> buffer = extend_pending (buffer st) s, features = features st \<rparr>"
    from step False have st1: "pack_step ?lm msl s st = Inr ?st1" by simp
    have al1: "aligned (buffer ?st1)"
      using extend_pending_aligned[OF Cons.prems(2) s_al] by simp
    have fit1: "int (length (pending_token_ids (buffer ?st1))) \<le> msl"
      using False by (simp add: length_extend_pending)
    from Cons.IH[OF rest_fit al1 fit1] obtain st' where
      "transformers_loop ?lm msl enc examples ?st1 = Inr st'"
      "aligned (buffer st')" "int (length (pending_token_ids (buffer st'))) \<le> msl"
      "features st' @ [spec_padded_record msl (buffer st')] =
         features ?st1 @ map (spec_padded_record msl) (spec_pack msl (buffer ?st1) seqs)"
      by auto
    with Cons.hyps(1) st1 False show ?thesis
      by (auto simp: add.commute)
  qed
qed

lemma convert_transformers_spec:
  assumes "0 \<le> msl"
    and "list_all2 (\<lambda>ex s. example_sequence (label_map_of ll) msl enc ex = Inr s) examples seqs"
    and "\<forall>s\<in>set seqs. int (length (pending_token_ids s)) \<le> msl"
  shows "convert_examples_to_features_Transformers examples ll msl enc =
     Inr (map (spec_padded_record msl) (spec_pack msl empty_pending seqs))"
proof -
  let ?st0 = "\<lparr> buffer = empty_pending, features = [] \<rparr>"
  have "aligned (buffer ?st0)" by (simp add: aligned_empty)
  moreover have "int (length (pending_token_ids (buffer ?st0))) \<le> msl"
    using assms(1) by (simp add: empty_pending_def)
  ultimately obtain st' where
    loop: "transformers_loop (label_map_of ll) msl enc examples ?st0 = Inr st'"
    and al: "aligned (buffer st')"
    and fit: "int (length (pending_token_ids (buffer st'))) \<le> msl"
    and res: "features st' @ [spec_padded_record msl (buffer st')] =
             features ?st0 @ map (spec_padded_record msl) (spec_pack msl (buffer ?st0) seqs)"
    using transformers_loop_spec[OF assms(2,3), of ?st0] by blast
  have "append_pending ignored_label (buffer st') msl (label_map_of ll)
      = Inr (spec_padded_record msl (buffer st'))"
    by (rule append_pending_spec[OF al fit dict_get_ignored])
  with loop res show ?thesis
    by (simp add: convert_examples_to_features_Transformers_def)
qed

text \<open>
  Claim C2. For examples whose sequences each fit into \<open>max_seq_length\<close>: one step of
  the builder emits the padded pending buffer and restarts the buffer with the example's
  sequence exactly when appending would exceed \<open>max_seq_length\<close>, and extends the buffer
  otherwise; the whole run returns the padded buffers of the pending-buffer procedure
  \<open>spec_pack\<close> (whose last buffer is the final flush), each padded with token id 1,
  masks 0 and label id 0. So two examples that fit together share one record, and a
  third that would overflow starts the second record.
\<close>

theorem packing_follows_pending_buffer:
  assumes "0 \<le> max_seq_length"
    and "list_all2 (\<lambda>ex s. example_sequence (label_map_of label_list) max_seq_length
                             encode_method ex = Inr s) examples seqs"
    and "\<forall>s\<in>set seqs. int (length (pending_token_ids s)) \<le> max_seq_length"
  shows "convert_examples_to_features_Transformers examples label_list max_seq_length encode_method
       = Inr (map (spec_padded_record max_seq_length)
               (spec_pack max_seq_length empty_pending seqs)) \<and>
     (\<forall>st s. aligned (buffer st) \<and>
             int (length (pending_token_ids (buffer st))) \<le> max_seq_length \<longrightarrow>
        pack_step (label_map_of label_list) max_seq_length s st =
          Inr (if int (length (pending_token_ids s)) + int (length (pending_token_ids (buffer st)))
                    > max_seq_length
               then \<lparr> buffer = s,
                      features = features st @ [spec_padded_record max_seq_length (buffer st)] \<rparr>
               else \<lparr> buffer = extend_pending (buffer st) s, features = features st \<rparr>)) \<and>
     (\<forall>s1 s2. seqs = [s1, s2] \<and>
        int (length (pending_token_ids s1)) + int (length (pending_token_ids s2)) \<le> max_seq_length
        \<longrightarrow> convert_examples_to_features_Transformers examples label_list max_seq_length
              encode_method
            = Inr [spec_padded_record max_seq_length (extend_pending s1 s2)]) \<and>
     (\<forall>s1 s2 s3. seqs = [s1, s2, s3] \<and>
        int (length (pending_token_ids s1)) + int (length (pending_token_ids s2)) \<le> max_seq_length \<and>
        int (length (pending_token_ids s1)) + int (length (pending_token_ids s2))
          + int (length (pending_token_ids s3)) > max_seq_length
        \<longrightarrow> convert_examples_to_features_Transformers examples label_list max_seq_length
              encode_method
            = Inr [spec_padded_record max_seq_length (extend_pending s1 s2),
                   spec_padded_record max_seq_length s3])"
proof -
  note run = convert_transformers_spec[OF assms]
  have e: "length (pending_token_ids empty_pending) = 0"
    by (simp add: empty_pending_def)
  have two: "spec_pack max_seq_length empty_pending [s1, s2] = [extend_pending s1 s2]"
    if "seqs = [s1, s2]"
      "int (length (pending_token_ids s1)) + int (length (pending_token_ids s2)) \<le> max_seq_length"
    for s1 s2
    using that assms(3) by (simp add: e extend_pending_empty)
  have three: "spec_pack max_seq_length empty_pending [s1, s2, s3] = [extend_pending s1 s2, s3]"
    if "seqs = [s1, s2, s3]"
      "int (length (pending_token_ids s1)) + int (length (pending_token_ids s2)) \<le> max_seq_length"
      "int (length (pending_token_ids s1)) + int (length (pending_token_ids s2))
          + int (length (pending_token_ids s3)) > max_seq_length"
    for s1 s2 s3
    using that assms(3) by (simp add: e extend_pending_empty length_extend_pending)
  show ?thesis
  proof (intro conjI allI impI)
    show "convert_examples_to_features_Transformers examples label_list max_seq_length encode_method
       = Inr (map (spec_padded_record max_seq_length)
               (spec_pack max_seq_length empty_pending seqs))"
      by (rule run)
  next
    fix st :: pack_state and s :: pending
    assume "aligned (buffer st) \<and>
             int (length (pending_token_ids (buffer st))) \<le> max_seq_length"
    then show "pack_step (label_map_of label_list) max_seq_length s st =
          Inr (if int (length (pending_token_ids s)) + int (length (pending_token_ids (buffer st)))
                    > max_seq_length
               then \<lparr> buffer = s,
                      features = features st @ [spec_padded_record max_seq_length (buffer st)] \<rparr>
               else \<lparr> buffer = extend_pending (buffer st) s, features = features st \<rparr>)"
      using pack_step_spec by blast
  next
    fix s1 s2
    assume "seqs = [s1, s2] \<and>
        int (length (pending_token_ids s1)) + int (length (pending_token_ids s2)) \<le> max_seq_length"
    then show "convert_examples_to_features_Transformers examples label_list max_seq_length
              encode_method
            = Inr [spec_padded_record max_seq_length (extend_pending s1 s2)]"
      using run two[of s1 s2] by simp
  next
    fix s1 s2 s3
    assume "seqs = [s1, s2, s3] \<and>
        int (length (pending_token_ids s1)) + int (length (pending_token_ids s2)) \<le> max_seq_length \<and>
        int (length (pending_token_ids s1)) + int (length (pending_token_ids s2))
          + int (length (pending_token_ids s3)) > max_seq_length"
    then show "convert_examples_to_features_Transformers examples label_list max_seq_length
              encode_method
            = Inr [spec_padded_record max_seq_length (extend_pending s1 s2),
                   spec_padded_record max_seq_length s3]"
      using run three[of s1 s2 s3] by simp
  qed
qed

section \<open>Concrete runs of the transformer-packing strategy\<close>

theorem first_piece_carries_word_label_witness:
  "encode_example demo_encoder demo_example_1 =
     Inr \<lparr> ex_token_ids = [9, 9, 9], ex_labels = [''P'', ''IGNORE'', ''O''],
           ex_valid = [1, 0, 1], ex_label_mask = [1, 0, 1] \<rparr> \<and>
   (0::nat) < length [''ab'', ''c''] \<and> (1::nat) \<le> 2 \<and>
   [''P'', ''IGNORE'', ''O''] ! 0 = label demo_example_1 ! 0 \<and>
   [''P'', ''IGNORE'', ''O''] ! (0 + 1) = ignored_label \<and>
   [1, 0, 1 :: int] ! 0 = 1 \<and> [1, 0, 1 :: int] ! (0 + 1) = 0"
proof -
  let ?p = "\<lparr> ex_token_ids = [9, 9, 9], ex_labels = [''P'', ''IGNORE'', ''O''],
           ex_valid = [1, 0, 1], ex_label_mask = [1, 0, 1] \<rparr>"
  have run: "encode_example demo_encoder demo_example_1 = Inr ?p"
    by code_simp
  have words: "[''ab'', ''c''] = py_split CHR '' '' (text_a demo_example_1)"
    by code_simp
  have i: "(0::nat) < length [''ab'', ''c'']" by simp
  have k: "(2::nat) = length (demo_encoder (PyStr (py_strip ([''ab'', ''c''] ! 0))))"
    by code_simp
  have k1: "(1::nat) \<le> 2" by simp
  have off: "(0::nat) = sum_list (map (\<lambda>w. length (demo_encoder (PyStr (py_strip w))))
                                   (take 0 [''ab'', ''c'']))"
    by simp
  from first_piece_carries_word_label[OF run words i k k1 off]
  have "ex_labels ?p ! 0 = label demo_example_1 ! 0 \<and> ex_valid ?p ! 0 = 1 \<and>
        (\<forall>m. 1 \<le> m \<and> m < 2 \<longrightarrow> ex_labels ?p ! (0 + m) = ignored_label \<and>
                                  ex_valid ?p ! (0 + m) = 0 \<and> ex_label_mask ?p ! (0 + m) = 0)"
    by blast
  then have "ex_labels ?p ! 0 = label demo_example_1 ! 0 \<and> ex_valid ?p ! 0 = 1 \<and>
        ex_labels ?p ! (0 + 1) = ignored_label \<and> ex_valid ?p ! (0 + 1) = 0"
    by auto
  with run i k1 show ?thesis by simp
qed

theorem truncation_then_sentence_markers_witness:
  "encode_example demo_encoder demo_example_1 =
     Inr \<lparr> ex_token_ids = [9, 9, 9], ex_labels = [''P'', ''IGNORE'', ''O''],
           ex_valid = [1, 0, 1], ex_label_mask = [1, 0, 1] \<rparr> \<and>
   example_sequence (label_map_of [''O'', ''P'']) 4 demo_encoder demo_example_1 =
     Inr \<lparr> pending_token_ids = [0, 9, 9, 2], pending_input_mask = [1, 1, 1, 1],
           pending_label_ids = [0, 2, 0, 0], pending_valid = [0, 1, 0, 0],
           pending_label_mask = [0, 1, 0, 0] \<rparr> \<and>
   (2::int) \<le> 4 \<and> (4::int) - 1 \<le> int 3 \<and>
   [0, 9, 9, 2] = 0 # spec_trim 4 3 [9, 9, 9 :: int] @ [2] \<and>
   int (length (spec_trim 4 3 [9, 9, 9 :: int])) = 4 - 2"
proof -
  let ?p = "\<lparr> ex_token_ids = [9, 9, 9], ex_labels = [''P'', ''IGNORE'', ''O''],
           ex_valid = [1, 0, 1], ex_label_mask = [1, 0, 1] \<rparr>"
  let ?s = "\<lparr> pending_token_ids = [0, 9, 9, 2], pending_input_mask = [1, 1, 1, 1],
           pending_label_ids = [0, 2, 0, 0], pending_valid = [0, 1, 0, 0],
           pending_label_mask = [0, 1, 0, 0] \<rparr>"
  have run: "encode_example demo_encoder demo_example_1 = Inr ?p"
    by code_simp
  have seq: "example_sequence (label_map_of [''O'', ''P'']) 4 demo_encoder demo_example_1 = Inr ?s"
    by code_simp
  have msl: "(2::int) \<le> 4" by simp
  have n: "(3::nat) = length (ex_token_ids ?p)" by simp
  have long: "(4::int) - 1 \<le> int 3" by simp
  from truncation_then_sentence_markers[OF run seq msl n]
  have "pending_token_ids ?s = 0 # spec_trim 4 3 (ex_token_ids ?p) @ [2] \<and>
        (4 - 1 \<le> int 3 \<longrightarrow> int (length (spec_trim 4 3 (ex_token_ids ?p))) = 4 - 2)"
    by blast
  with long have "[0, 9, 9, 2] = 0 # spec_trim 4 3 [9, 9, 9 :: int] @ [2] \<and>
        int (length (spec_trim 4 3 [9, 9, 9 :: int])) = 4 - 2"
    by simp
  with run seq msl long show ?thesis by blast
qed

theorem packing_follows_pending_buffer_witness:
  "(0::int) \<le> 8 \<and>
   list_all2 (\<lambda>ex s. example_sequence (label_map_of [''O'', ''P'']) 8 demo_encoder ex = Inr s)
     [demo_example_1, demo_example_2, demo_example_2]
     [\<lparr> pending_token_ids = [0, 9, 9, 9, 2], pending_input_mask = [1, 1, 1, 1, 1],
         pending_label_ids = [0, 2, 0, 1, 0], pending_valid = [0, 1, 0, 1, 0],
         pending_label_mask = [0, 1, 0, 1, 0] \<rparr>,
      \<lparr> pending_token_ids = [0, 9, 2], pending_input_mask = [1, 1, 1],
         pending_label_ids = [0, 1, 0], pending_valid = [0, 1, 0],
         pending_label_mask = [0, 1, 0] \<rparr>,
      \<lparr> pending_token_ids = [0, 9, 2], pending_input_mask = [1, 1, 1],
         pending_label_ids = [0, 1, 0], pending_valid = [0, 1, 0],
         pending_label_mask = [0, 1, 0] \<rparr>] \<and>
   convert_examples_to_features_Transformers [demo_example_1, demo_example_2, demo_example_2]
       [''O'', ''P''] 8 demo_encoder =
     Inr [\<lparr> input_ids = [0, 9, 9, 9, 2, 0, 9, 2], input_mask = [1, 1, 1, 1, 1, 1, 1, 1],
            label_id = [0, 2, 0, 1, 0, 0, 1, 0], valid_ids = [0, 1, 0, 1, 0, 0, 1, 0],
            label_mask = [0, 1, 0, 1, 0, 0, 1, 0] \<rparr>,
          \<lparr> input_ids = [0, 9, 2, 1, 1, 1, 1, 1], input_mask = [1, 1, 1, 0, 0, 0, 0, 0],
            label_id = [0, 1, 0, 0, 0, 0, 0, 0], valid_ids = [0, 1, 0, 0, 0, 0, 0, 0],
            label_mask = [0, 1, 0, 0, 0, 0, 0, 0] \<rparr>]"
proof -
  let ?s1 = "\<lparr> pending_token_ids = [0, 9, 9, 9, 2], pending_input_mask = [1, 1, 1, 1, 1],
         pending_label_ids = [0, 2, 0, 1, 0], pending_valid = [0, 1, 0, 1, 0],
         pending_label_mask = [0, 1, 0, 1, 0] \<rparr>"
  let ?s2 = "\<lparr> pending_token_ids = [0, 9, 2], pending_input_mask = [1, 1, 1],
         pending_label_ids = [0, 1, 0], pending_valid = [0, 1, 0],
         pending_label_mask = [0, 1, 0] \<rparr>"
  let ?lm = "label_map_of [''O'', ''P'']"
  have e1: "example_sequence ?lm 8 demo_encoder demo_example_1 = Inr ?s1"
    by code_simp
  have e2: "example_sequence ?lm 8 demo_encoder demo_example_2 = Inr ?s2"
    by code_simp
  have msl: "(0::int) \<le> 8" by simp
  have all2: "list_all2 (\<lambda>ex s. example_sequence ?lm 8 demo_encoder ex = Inr s)
     [demo_example_1, demo_example_2, demo_example_2] [?s1, ?s2, ?s2]"
    using e1 e2 by simp
  have fits: "\<forall>s\<in>set [?s1, ?s2, ?s2]. int (length (pending_token_ids s)) \<le> 8"
    by simp
  from packing_follows_pending_buffer[OF msl all2 fits]
  have "\<forall>s1 s2 s3. [?s1, ?s2, ?s2] = [s1, s2, s3] \<and>
        int (length (pending_token_ids s1)) + int (length (pending_token_ids s2)) \<le> 8 \<and>
        int (length (pending_token_ids s1)) + int (length (pending_token_ids s2))
          + int (length (pending_token_ids s3)) > 8
        \<longrightarrow> convert_examples_to_features_Transformers
              [demo_example_1, demo_example_2, demo_example_2] [''O'', ''P''] 8 demo_encoder
            = Inr [spec_padded_record 8 (extend_pending s1 s2), spec_padded_record 8 s3]"
    by blast
  then have "convert_examples_to_features_Transformers
              [demo_example_1, demo_example_2, demo_example_2] [''O'', ''P''] 8 demo_encoder
            = Inr [spec_padded_record 8 (extend_pending ?s1 ?s2), spec_padded_record 8 ?s2]"
    by simp
  moreover have "spec_padded_record 8 (extend_pending ?s1 ?s2) =
       \<lparr> input_ids = [0, 9, 9, 9, 2, 0, 9, 2], input_mask = [1, 1, 1, 1, 1, 1, 1, 1],
            label_id = [0, 2, 0, 1, 0, 0, 1, 0], valid_ids = [0, 1, 0, 1, 0, 0, 1, 0],
            label_mask = [0, 1, 0, 1, 0, 0, 1, 0] \<rparr>"
    by code_simp
  moreover have "spec_padded_record 8 ?s2 =
       \<lparr> input_ids = [0, 9, 2, 1, 1, 1, 1, 1], input_mask = [1, 1, 1, 0, 0, 0, 0, 0],
            label_id = [0, 1, 0, 0, 0, 0, 0, 0], valid_ids = [0, 1, 0, 0, 0, 0, 0, 0],
            label_mask = [0, 1, 0, 0, 0, 0, 0, 0] \<rparr>"
    by code_simp
  ultimately show ?thesis
    using msl all2 by simp
qed

section \<open>Round trip through the validity mask\<close>

lemma project_valid_Nil [simp]: "project_valid [] vs = []" "project_valid ls [] = []"
  by (simp_all add: project_valid_def)

lemma project_valid_Cons [simp]:
  "project_valid (l # ls) (v # vs) = (if v = 1 then l # project_valid ls vs else project_valid ls vs)"
  by (simp add: project_valid_def)

lemma project_valid_append:
  assumes "length a = length b"
  shows "project_valid (a @ c) (b @ d) = project_valid a b @ project_valid c d"
  using assms by (simp add: project_valid_def)

lemma project_valid_zeros: "project_valid ls (replicate n 0) = []"
proof -
  have "\<forall>x\<in>set (zip ls (replicate n (0::int))). \<not> (case x of (l, v) \<Rightarrow> v = 1)"
    by (auto dest: set_zip_rightD)
  then show ?thesis
    by (simp add: project_valid_def filter_False)
qed

lemma project_valid_map: "project_valid (map f ls) vs = map f (project_valid ls vs)"
proof (induction ls arbitrary: vs)
  case Nil
  show ?case by simp
next
  case (Cons l ls)
  then show ?case by (cases vs) simp_all
qed

lemma project_valid_word:
  assumes "1 \<le> k"
  shows "project_valid (word_labels l k) (word_flags k) = [l]"
  using assms
  by (cases k) (simp_all add: word_labels_def word_flags_def project_valid_zeros)

lemma encode_words_project:
  assumes "encode_words enc labellist (enumerate i ws) acc = Inr p"
    and "length (ex_labels acc) = length (ex_valid acc)"
    and "\<forall>w\<in>set ws. enc (PyStr (py_strip w)) \<noteq> []"
  shows "project_valid (ex_labels p) (ex_valid p) =
     project_valid (ex_labels acc) (ex_valid acc) @ take (length ws) (drop i labellist)"
  using assms
proof (induction ws arbitrary: i acc)
  case Nil
  then show ?case by simp
next
  case (Cons w ws)
  let ?k = "length (enc (PyStr (py_strip w)))"
  let ?acc' = "fold (piece_step (labellist ! i)) [0 ..< ?k]
                 (acc\<lparr> ex_token_ids := ex_token_ids acc @ enc (PyStr (py_strip w)) \<rparr>)"
  from Cons.prems(1) have i: "i < length labellist"
    and rest: "encode_words enc labellist (enumerate (Suc i) ws) ?acc' = Inr p"
    by (auto simp: Let_def split: if_splits)
  from Cons.prems(3) have k: "1 \<le> ?k" and ws: "\<forall>w\<in>set ws. enc (PyStr (py_strip w)) \<noteq> []"
    by (simp_all add: Suc_le_eq)
  have len': "length (ex_labels ?acc') = length (ex_valid ?acc')"
    using Cons.prems(2) by (simp add: pieces_fold)
  have acc': "project_valid (ex_labels ?acc') (ex_valid ?acc') =
      project_valid (ex_labels acc) (ex_valid acc) @ [labellist ! i]"
    using Cons.prems(2) k by (simp add: pieces_fold project_valid_append project_valid_word)
  have "take (length (w # ws)) (drop i labellist) =
      labellist ! i # take (length ws) (drop (Suc i) labellist)"
    using i by (simp add: Cons_nth_drop_Suc[symmetric])
  with Cons.IH[OF rest len' ws] acc' show ?case by simp
qed

lemma encode_example_project:
  assumes "encode_example enc example = Inr p"
    and "\<forall>w\<in>set (py_split CHR '' '' (text_a example)). enc (PyStr (py_strip w)) \<noteq> []"
  shows "project_valid (ex_labels p) (ex_valid p) =
     take (length (py_split CHR '' '' (text_a example))) (label example)"
  using encode_words_project[OF assms(1)[unfolded encode_example_def] _ assms(2)]
  by (simp add: no_pieces_def)

lemma trim_extra_short:
  assumes "int (length (ex_token_ids p)) < msl - 1"
  shows "trim_extra msl p = p"
  using assms by (simp add: trim_extra_def)

lemma example_sequence_project:
  assumes "example_sequence lm msl enc example = Inr s"
    and "int (length (concat (map (\<lambda>w. enc (PyStr (py_strip w)))
                                (py_split CHR '' '' (text_a example))))) < msl - 1"
    and "\<forall>w\<in>set (py_split CHR '' '' (text_a example)). enc (PyStr (py_strip w)) \<noteq> []"
  shows "map Some (project_valid (pending_label_ids s) (pending_valid s)) =
     map lm (take (length (py_split CHR '' '' (text_a example))) (label example))"
proof -
  from assms(1) obtain p0 where p0: "encode_example enc example = Inr p0"
    by (auto simp: example_sequence_def split: sum.splits)
  have short: "int (length (ex_token_ids p0)) < msl - 1"
    using encode_example_eq[OF p0] assms(2) by simp
  have al: "pieces_aligned p0" by (rule encode_example_aligned[OF p0])
  note seq = example_sequence_eq[OF p0 assms(1), unfolded trim_extra_short[OF short]]
  have "map Some (project_valid (pending_label_ids s) (pending_valid s)) =
      project_valid (map Some (pending_label_ids s)) (pending_valid s)"
    by (simp add: project_valid_map)
  also have "\<dots> = project_valid (map lm (ex_labels p0)) (ex_valid p0)"
    using seq al
    by (simp add: add_markers_def pieces_aligned_def project_valid_append)
  also have "\<dots> = map lm (project_valid (ex_labels p0) (ex_valid p0))"
    by (simp add: project_valid_map)
  finally show ?thesis
    by (simp add: encode_example_project[OF p0 assms(3)])
qed

lemma labels_at_valid_padded:
  assumes "aligned p"
  shows "labels_at_valid (spec_padded_record msl p)
     = project_valid (pending_label_ids p) (pending_valid p)"
  using assms
  by (simp add: labels_at_valid_def spec_padded_record_def Let_def aligned_def
      project_valid_append project_valid_zeros)

lemma append_pending_Inr:
  assumes "append_pending ignored_label p msl (label_map_of ll) = Inr f" and "aligned p"
  shows "f = spec_padded_record msl p"
proof (cases "int (length (pending_token_ids p)) \<le> msl")
  case True
  from append_pending_spec[OF assms(2) True dict_get_ignored, of ll] assms(1) show ?thesis
    by simp
next
  case False
  then have "append_pending ignored_label p msl (label_map_of ll) = Inl AssertionError"
    using assms(2)
    by (simp add: append_pending_def pad_pending_eq[OF dict_get_ignored]
        pad_pending_labels_eq[OF dict_get_ignored] aligned_def)
  with assms(1) show ?thesis by simp
qed

lemma transformers_loop_round_trip:
  assumes "transformers_loop (label_map_of ll) msl enc exs st = Inr st'"
    and "aligned (buffer st)"
    and "\<forall>ex\<in>set exs. untruncated msl enc ex \<and> every_word_encoded enc ex"
  shows "aligned (buffer st') \<and>
     map Some (concat (map labels_at_valid (features st')) @
               project_valid (pending_label_ids (buffer st')) (pending_valid (buffer st')))
     = map Some (concat (map labels_at_valid (features st)) @
                 project_valid (pending_label_ids (buffer st)) (pending_valid (buffer st)))
       @ concat (map (word_label_ids (label_map_of ll)) exs)"
  using assms
proof (induction exs arbitrary: st)
  case Nil
  then show ?case by simp
next
  case (Cons ex exs)
  let ?lm = "label_map_of ll"
  let ?pb = "\<lambda>b. project_valid (pending_label_ids b) (pending_valid b)"
  from Cons.prems(1) obtain s st1 where s: "example_sequence ?lm msl enc ex = Inr s"
    and st1: "pack_step ?lm msl s st = Inr st1"
    and rest: "transformers_loop ?lm msl enc exs st1 = Inr st'"
    by (auto split: sum.splits)
  have s_al: "aligned s" by (rule example_sequence_aligned[OF s])
  have s_pr: "map Some (?pb s) = word_label_ids ?lm ex"
    using example_sequence_project[OF s] Cons.prems(3)
    by (simp add: word_label_ids_def untruncated_def every_word_encoded_def)
  have step: "aligned (buffer st1) \<and>
      concat (map labels_at_valid (features st1)) @ ?pb (buffer st1)
      = (concat (map labels_at_valid (features st)) @ ?pb (buffer st)) @ ?pb s"
  proof (cases "int (length (pending_token_ids s)) + int (length (pending_token_ids (buffer st))) > msl")
    case True
    with st1 obtain f where f: "append_pending ignored_label (buffer st) msl ?lm = Inr f"
      and eq: "st1 = \<lparr> buffer = s, features = features st @ [f] \<rparr>"
      by (auto simp: pack_step_def split: sum.splits)
    have "labels_at_valid f = ?pb (buffer st)"
      using append_pending_Inr[OF f Cons.prems(2)] labels_at_valid_padded[OF Cons.prems(2)]
      by simp
    with eq s_al show ?thesis by simp
  next
    case False
    with st1 have eq: "st1 = \<lparr> buffer = extend_pending (buffer st) s, features = features st \<rparr>"
      by (simp add: pack_step_def)
    have "?pb (extend_pending (buffer st) s) = ?pb (buffer st) @ ?pb s"
      using Cons.prems(2) by (simp add: extend_pending_def project_valid_append aligned_def)
    with eq extend_pending_aligned[OF Cons.prems(2) s_al] show ?thesis by simp
  qed
  from Cons.prems(3) have all: "\<forall>ex\<in>set exs. untruncated msl enc ex \<and> every_word_encoded enc ex"
    by simp
  from Cons.IH[OF rest conjunct1[OF step] all] conjunct2[OF step] s_pr show ?case
    by simp
qed

lemma transformers_loop_labels_cover_words:
  assumes "transformers_loop lm msl enc exs st = Inr st'"
  shows "\<forall>ex\<in>set exs. length (py_split CHR '' '' (text_a ex)) \<le> length (label ex)"
  using assms
proof (induction exs arbitrary: st)
  case Nil
  then show ?case by simp
next
  case (Cons ex exs)
  from Cons.prems obtain s st1 where s: "example_sequence lm msl enc ex = Inr s"
    and rest: "transformers_loop lm msl enc exs st1 = Inr st'"
    by (auto split: sum.splits)
  from s obtain p0 where "encode_example enc ex = Inr p0"
    by (auto simp: example_sequence_def split: sum.splits)
  from encode_example_eq[OF this] Cons.IH[OF rest] show ?case by simp
qed

lemma fold_enumerate_lookup:
  assumes "fold (\<lambda>(i, l) m. m(l \<mapsto> i)) (py_enumerate start ll) m0 x = Some v"
  shows "m0 x = Some v \<or> (\<exists>n < length ll. ll ! n = x \<and> v = start + int n)"
  using assms
proof (induction ll arbitrary: start m0)
  case Nil
  then show ?case by simp
next
  case (Cons l ll)
  from Cons.prems have
    "fold (\<lambda>(i, l) m. m(l \<mapsto> i)) (py_enumerate (start + 1) ll) (m0(l \<mapsto> start)) x = Some v"
    by (simp only: py_enumerate.simps fold.simps o_apply prod.case)
  from Cons.IH[OF this] show ?case
  proof
    assume "(m0(l \<mapsto> start)) x = Some v"
    then show ?thesis by (auto split: if_splits)
  next
    assume "\<exists>n<length ll. ll ! n = x \<and> v = start + 1 + int n"
    then obtain n where "n < length ll" "ll ! n = x" "v = start + 1 + int n" by blast
    then have "Suc n < length (l # ll) \<and> (l # ll) ! Suc n = x \<and> v = start + int (Suc n)"
      by simp
    then show ?thesis by blast
  qed
qed

lemma label_map_of_lookup:
  assumes "label_map_of ll x = Some v"
  shows "(x = ignored_label \<and> v = 0) \<or>
         (x \<noteq> ignored_label \<and> (\<exists>n < length ll. ll ! n = x \<and> v = 1 + int n))"
proof (cases "x = ignored_label")
  case True
  with assms show ?thesis by (simp add: label_map_of_def)
next
  case False
  with assms have "fold (\<lambda>(i, l) m. m(l \<mapsto> i)) (py_enumerate 1 ll) Map.empty x = Some v"
    by (simp add: label_map_of_def)
  from fold_enumerate_lookup[OF this] False show ?thesis by simp
qed

lemma label_map_of_inj: "inj_on (label_map_of ll) (dom (label_map_of ll))"
proof (rule inj_onI)
  fix x y
  assume "x \<in> dom (label_map_of ll)" "y \<in> dom (label_map_of ll)"
    and eq: "label_map_of ll x = label_map_of ll y"
  then obtain v where x: "label_map_of ll x = Some v" and y: "label_map_of ll y = Some v"
    by auto
  from label_map_of_lookup[OF x] label_map_of_lookup[OF y] show "x = y"
    by auto
qed

text \<open>
  Claim C6. When no example is truncated and every word has at least one piece, the label
  ids at the validity-1 positions of the produced records, read in order across the
  records, are exactly the ids of the labels of the words, one per word, in word order
  and example order. Every example has a label for each of its words, and the label map
  is injective on its domain, so the ids determine the labels.
\<close>

theorem valid_positions_reconstruct_word_labels:
  assumes "convert_examples_to_features_Transformers examples label_list max_seq_length
             encode_method = Inr fs"
    and "\<forall>ex\<in>set examples. untruncated max_seq_length encode_method ex"
    and "\<forall>ex\<in>set examples. every_word_encoded encode_method ex"
  shows "map Some (concat (map labels_at_valid fs)) =
       concat (map (\<lambda>ex. map (label_map_of label_list)
                            (take (length (py_split CHR '' '' (text_a ex))) (label ex))) examples) \<and>
     (\<forall>ex\<in>set examples. length (py_split CHR '' '' (text_a ex)) \<le> length (label ex)) \<and>
     inj_on (label_map_of label_list) (dom (label_map_of label_list))"
proof -
  let ?lm = "label_map_of label_list"
  let ?st0 = "\<lparr> buffer = empty_pending, features = [] \<rparr>"
  from assms(1) obtain st f where
    loop: "transformers_loop ?lm max_seq_length encode_method examples ?st0 = Inr st"
    and last: "append_pending ignored_label (buffer st) max_seq_length ?lm = Inr f"
    and fs: "fs = features st @ [f]"
    by (auto simp: convert_examples_to_features_Transformers_def Let_def split: sum.splits)
  have al0: "aligned (buffer ?st0)" by (simp add: aligned_empty)
  have hyp: "\<forall>ex\<in>set examples. untruncated max_seq_length encode_method ex \<and>
               every_word_encoded encode_method ex"
    using assms(2,3) by blast
  note inv = transformers_loop_round_trip[OF loop al0 hyp]
  have "labels_at_valid f =
      project_valid (pending_label_ids (buffer st)) (pending_valid (buffer st))"
    using append_pending_Inr[OF last conjunct1[OF inv]]
      labels_at_valid_padded[OF conjunct1[OF inv]] by simp
  with conjunct2[OF inv] fs
  have "map Some (concat (map labels_at_valid fs)) = concat (map (word_label_ids ?lm) examples)"
    by (simp add: empty_pending_def)
  moreover have "word_label_ids ?lm = (\<lambda>ex. map ?lm
                            (take (length (py_split CHR '' '' (text_a ex))) (label ex)))"
    by (rule ext) (simp add: word_label_ids_def)
  ultimately show ?thesis
    using transformers_loop_labels_cover_words[OF loop] label_map_of_inj by simp
qed

theorem valid_positions_reconstruct_word_labels_witness:
  "convert_examples_to_features_Transformers [demo_example_1, demo_example_2]
       [''O'', ''P''] 8 demo_encoder =
     Inr [\<lparr> input_ids = [0, 9, 9, 9, 2, 0, 9, 2], input_mask = [1, 1, 1, 1, 1, 1, 1, 1],
            label_id = [0, 2, 0, 1, 0, 0, 1, 0], valid_ids = [0, 1, 0, 1, 0, 0, 1, 0],
            label_mask = [0, 1, 0, 1, 0, 0, 1, 0] \<rparr>] \<and>
   untruncated 8 demo_encoder demo_example_1 \<and>
   untruncated 8 demo_encoder demo_example_2 \<and>
   map Some (labels_at_valid
       \<lparr> input_ids = [0, 9, 9, 9, 2, 0, 9, 2], input_mask = [1, 1, 1, 1, 1, 1, 1, 1],
         label_id = [0, 2, 0, 1, 0, 0, 1, 0], valid_ids = [0, 1, 0, 1, 0, 0, 1, 0],
         label_mask = [0, 1, 0, 1, 0, 0, 1, 0] \<rparr>) =
     map (label_map_of [''O'', ''P'']) [''P'', ''O'', ''O'']"
proof -
  let ?f = "\<lparr> input_ids = [0, 9, 9, 9, 2, 0, 9, 2], input_mask = [1, 1, 1, 1, 1, 1, 1, 1],
            label_id = [0, 2, 0, 1, 0, 0, 1, 0], valid_ids = [0, 1, 0, 1, 0, 0, 1, 0],
            label_mask = [0, 1, 0, 1, 0, 0, 1, 0] \<rparr>"
  have run: "convert_examples_to_features_Transformers [demo_example_1, demo_example_2]
       [''O'', ''P''] 8 demo_encoder = Inr [?f]"
    by code_simp
  have u: "\<forall>ex\<in>set [demo_example_1, demo_example_2]. untruncated 8 demo_encoder ex"
    by code_simp
  have w: "\<forall>ex\<in>set [demo_example_1, demo_example_2]. every_word_encoded demo_encoder ex"
    by code_simp
  have w1: "take (length (py_split CHR '' '' (text_a demo_example_1))) (label demo_example_1)
      = [''P'', ''O'']"
    by code_simp
  have w2: "take (length (py_split CHR '' '' (text_a demo_example_2))) (label demo_example_2)
      = [''O'']"
    by code_simp
  from valid_positions_reconstruct_word_labels[OF run u w]
  have "map Some (concat (map labels_at_valid [?f])) =
       concat (map (\<lambda>ex. map (label_map_of [''O'', ''P''])
                            (take (length (py_split CHR '' '' (text_a ex))) (label ex)))
                 [demo_example_1, demo_example_2])"
    by blast
  then have "map Some (labels_at_valid ?f) = map (label_map_of [''O'', ''P'']) [''P'', ''O'', ''O'']"
    by (simp add: w1 w2)
  with run u show ?thesis by simp
qed

end
